theory Spec2Isabelle
  imports Complex_Main "HOL-Library.AList" "HOL-Library.Char_ord" "HOL-Library.List_Lexorder"
begin

section \<open>The layout engine of the room editor: \<open>calculateAutoLayout\<close>\<close>

text \<open>
  The development embeds \<^verbatim>\<open>calculateAutoLayout\<close> of the layout utilities
  (the third document of \<^verbatim>\<open>src/components/load-rooms-modal.tsx\<close>, lines 259--437).

  Conventions of the embedding:
  \<^item> a JavaScript \<^verbatim>\<open>number\<close> is a \<^typ>\<open>real\<close>; \<^verbatim>\<open>Math.PI\<close>, \<^verbatim>\<open>Math.cos\<close>, \<^verbatim>\<open>Math.sin\<close> are
    \<^term>\<open>pi\<close>, \<^term>\<open>cos\<close>, \<^term>\<open>sin\<close> (IEEE rounding, NaN and infinities are not modelled);
  \<^item> a node or edge id is a \<^typ>\<open>string\<close>, compared by \<^verbatim>\<open>>\<close> lexicographically, character
    by character, as JavaScript compares strings;
  \<^item> a \<^verbatim>\<open>Record<string, T>\<close> is an association list in insertion order; writing an existing
    key replaces its value in place, writing a new key appends it (\<^const>\<open>AList.update\<close>);
    reading a missing key gives \<^verbatim>\<open>undefined\<close>, that is \<^const>\<open>None\<close>;
  \<^item> reading a property of \<^verbatim>\<open>undefined\<close> raises \<^verbatim>\<open>TypeError\<close>: the function returns
    \<open>Inl TypeError\<close>;
  \<^item> the keys of a record are own properties: ids that name a member of
    \<^verbatim>\<open>Object.prototype\<close> (such as \<^verbatim>\<open>__proto__\<close>) are outside the model;
  \<^item> the payload of a node or an edge (every field the engine does not read) is a type
    parameter;
  \<^item> the fields \<^verbatim>\<open>id\<close>, \<^verbatim>\<open>x\<close> and \<^verbatim>\<open>y\<close> are named \<open>node_id\<close>, \<open>edge_id\<close>, \<open>pos_x\<close> and
    \<open>pos_y\<close>.
\<close>

subsection \<open>Data model\<close>

record NodePosition =
  pos_x :: real
  pos_y :: real

record 'd Node =
  node_id :: string
  position :: NodePosition
  node_data :: 'd

record 'd Edge =
  edge_id :: string
  source :: string
  target :: string
  sourceHandle :: "string option"
  targetHandle :: "string option"
  edge_data :: 'd

type_synonym GraphConnections = "(string \<times> string list) list"

type_synonym Positions = "(string \<times> NodePosition) list"

datatype error = TypeError

definition horizontalSpacing :: real where
  "horizontalSpacing = 300"

definition verticalSpacing :: real where
  "verticalSpacing = 200"

subsection \<open>Adjacency maps (lines 266--283)\<close>

text \<open>One round of the first \<^verbatim>\<open>allNodes.forEach\<close>: both adjacency entries are reset to the
  empty array and the node's own position is stored.\<close>

definition initNode ::
  "'d Node \<Rightarrow> GraphConnections \<times> GraphConnections \<times> Positions
     \<Rightarrow> GraphConnections \<times> GraphConnections \<times> Positions" where
  "initNode node st =
     (case st of (graphIn, graphOut, np) \<Rightarrow>
        (AList.update (node_id node) [] graphIn,
         AList.update (node_id node) [] graphOut,
         AList.update (node_id node) (position node) np))"

definition initNodes ::
  "'d Node list \<Rightarrow> GraphConnections \<times> GraphConnections \<times> Positions" where
  "initNodes allNodes = fold initNode allNodes ([], [], [])"

text \<open>One round of \<^verbatim>\<open>allEdges.forEach\<close>: \<^verbatim>\<open>graphOut[edge.source].push(edge.target)\<close>, then
  \<^verbatim>\<open>graphIn[edge.target].push(edge.source)\<close>. Either entry may be \<^verbatim>\<open>undefined\<close>, and then
  \<^verbatim>\<open>.push\<close> raises.\<close>

definition addEdge ::
  "'e Edge \<Rightarrow> GraphConnections \<times> GraphConnections
     \<Rightarrow> error + GraphConnections \<times> GraphConnections" where
  "addEdge edge g =
     (case g of (graphIn, graphOut) \<Rightarrow>
        (case map_of graphOut (source edge) of
           None \<Rightarrow> Inl TypeError
         | Some outs \<Rightarrow>
             (case map_of graphIn (target edge) of
                None \<Rightarrow> Inl TypeError
              | Some ins \<Rightarrow>
                  Inr (AList.update (target edge) (ins @ [source edge]) graphIn,
                       AList.update (source edge) (outs @ [target edge]) graphOut))))"

fun fillConnections ::
  "'e Edge list \<Rightarrow> GraphConnections \<times> GraphConnections
     \<Rightarrow> error + GraphConnections \<times> GraphConnections" where
  "fillConnections [] g = Inr g"
| "fillConnections (edge # rest) g =
     (case addEdge edge g of
        Inl err \<Rightarrow> Inl err
      | Inr g' \<Rightarrow> fillConnections rest g')"

subsection \<open>Root selection (lines 285--303)\<close>

text \<open>The second \<^verbatim>\<open>allNodes.forEach\<close>: the ids of the nodes whose \<^verbatim>\<open>graphIn\<close> entry is empty,
  in the order of \<^verbatim>\<open>allNodes\<close>. Reading \<^verbatim>\<open>.length\<close> of a missing entry would raise.\<close>

fun zeroInDegree :: "GraphConnections \<Rightarrow> 'd Node list \<Rightarrow> error + string list" where
  "zeroInDegree graphIn [] = Inr []"
| "zeroInDegree graphIn (node # rest) =
     (case map_of graphIn (node_id node) of
        None \<Rightarrow> Inl TypeError
      | Some ins \<Rightarrow>
          (case zeroInDegree graphIn rest of
             Inl err \<Rightarrow> Inl err
           | Inr ids \<Rightarrow> Inr (if length ins = 0 then node_id node # ids else ids)))"

text \<open>\<^verbatim>\<open>startNodeId && allNodes.some(...)\<close>: an absent argument and the empty string are both
  falsy. Where the test holds the start node id is pushed (\<^const>\<open>the\<close> is applied to a
  \<^const>\<open>Some\<close> only).\<close>

definition startNodeUsable :: "'d Node list \<Rightarrow> string option \<Rightarrow> bool" where
  "startNodeUsable allNodes startNodeId =
     (case startNodeId of
        None \<Rightarrow> False
      | Some s \<Rightarrow> s \<noteq> [] \<and> (\<exists>node \<in> set allNodes. node_id node = s))"

definition findRootNodeIds ::
  "'d Node list \<Rightarrow> GraphConnections \<Rightarrow> string option \<Rightarrow> error + string list" where
  "findRootNodeIds allNodes graphIn startNodeId =
     (if startNodeUsable allNodes startNodeId then Inr [the startNodeId]
      else
        (case zeroInDegree graphIn allNodes of
           Inl err \<Rightarrow> Inl err
         | Inr rootNodeIds \<Rightarrow>
             (case allNodes of
                [] \<Rightarrow> Inr rootNodeIds
              | first # _ \<Rightarrow>
                  if length rootNodeIds = 0 then Inr [node_id first] else Inr rootNodeIds)))"

subsection \<open>Placing the roots (lines 309--316)\<close>

fun placeRootsFrom :: "nat \<Rightarrow> string list \<Rightarrow> Positions \<Rightarrow> Positions" where
  "placeRootsFrom index [] np = np"
| "placeRootsFrom index (nodeId # rest) np =
     placeRootsFrom (index + 1) rest
       (AList.update nodeId \<lparr>pos_x = real index * horizontalSpacing, pos_y = 100\<rparr> np)"

definition placeRoots :: "string list \<Rightarrow> Positions \<Rightarrow> Positions" where
  "placeRoots rootNodeIds np = placeRootsFrom 0 rootNodeIds np"

subsection \<open>Breadth-first propagation (lines 318--344)\<close>

text \<open>The position of the child at (0-based) \<open>index\<close> among \<open>n\<close> children of a parent.\<close>

definition childPos :: "NodePosition \<Rightarrow> nat \<Rightarrow> nat \<Rightarrow> NodePosition" where
  "childPos parentPos n index =
     (let angle = (pi / (real n + 1)) * (real index + 1)
      in \<lparr>pos_x = pos_x parentPos + (horizontalSpacing / 2) * cos angle,
          pos_y = pos_y parentPos + verticalSpacing * sin angle\<rparr>)"

fun placeChildrenFrom ::
  "NodePosition \<Rightarrow> nat \<Rightarrow> nat \<Rightarrow> string list \<Rightarrow> Positions \<Rightarrow> Positions" where
  "placeChildrenFrom parentPos n index [] np = np"
| "placeChildrenFrom parentPos n index (childId # rest) np =
     placeChildrenFrom parentPos n (index + 1) rest
       (AList.update childId (childPos parentPos n index) np)"

definition placeChildren :: "NodePosition \<Rightarrow> string list \<Rightarrow> Positions \<Rightarrow> Positions" where
  "placeChildren parentPos children np =
     placeChildrenFrom parentPos (length children) 0 children np"

text \<open>\<^verbatim>\<open>graphOut[currentId]?.filter((id) => !positionedIds.has(id)) || []\<close>\<close>

definition unpositionedChildren ::
  "GraphConnections \<Rightarrow> string set \<Rightarrow> string \<Rightarrow> string list" where
  "unpositionedChildren graphOut positionedIds currentId =
     (case map_of graphOut currentId of
        None \<Rightarrow> []
      | Some outs \<Rightarrow> filter (\<lambda>i. i \<notin> positionedIds) outs)"

text \<open>The \<^verbatim>\<open>while (queue.length > 0)\<close> loop. The children of one parent are all added to
  \<^verbatim>\<open>positionedIds\<close> and pushed on the queue, in order.\<close>

function bfs ::
  "GraphConnections \<Rightarrow> Positions \<Rightarrow> string set \<Rightarrow> string list \<Rightarrow> Positions \<times> string set" where
  "bfs graphOut np positionedIds [] = (np, positionedIds)"
| "bfs graphOut np positionedIds (currentId # queue) =
     (case map_of np currentId of
        None \<Rightarrow> bfs graphOut np positionedIds queue
      | Some parentPos \<Rightarrow>
          (if length (unpositionedChildren graphOut positionedIds currentId) > 0
           then bfs graphOut
                  (placeChildren parentPos
                     (unpositionedChildren graphOut positionedIds currentId) np)
                  (positionedIds \<union> set (unpositionedChildren graphOut positionedIds currentId))
                  (queue @ unpositionedChildren graphOut positionedIds currentId)
           else bfs graphOut np positionedIds queue))"
  by pat_completeness auto

termination bfs
proof (relation "inv_image (less_than <*lex*> less_than)
    (\<lambda>(graphOut, np, positionedIds, queue).
       (card (set (concat (map snd graphOut)) - positionedIds), length queue))")
  show "wf (inv_image (less_than <*lex*> less_than)
    (\<lambda>(graphOut, np, positionedIds, queue).
       (card (set (concat (map snd graphOut)) - positionedIds), length queue)))"
    by (intro wf_inv_image wf_lex_prod wf_less_than)
next
  fix graphOut :: GraphConnections and np :: Positions and positionedIds :: "string set"
    and currentId :: string and queue :: "string list"
  show "((graphOut, np, positionedIds, queue), graphOut, np, positionedIds, currentId # queue)
       \<in> inv_image (less_than <*lex*> less_than)
    (\<lambda>(graphOut, np, positionedIds, queue).
       (card (set (concat (map snd graphOut)) - positionedIds), length queue))"
    by simp
next
  fix graphOut :: GraphConnections and np :: Positions and positionedIds :: "string set"
    and currentId :: string and queue :: "string list" and parentPos :: NodePosition
  let ?cs = "unpositionedChildren graphOut positionedIds currentId"
  let ?targets = "set (concat (map snd graphOut))"
  assume "0 < length ?cs"
  then obtain c where c: "c \<in> set ?cs" by (cases ?cs) auto
  have sub: "set ?cs \<subseteq> ?targets - positionedIds"
  proof (cases "map_of graphOut currentId")
    case None
    then show ?thesis by (simp add: unpositionedChildren_def)
  next
    case (Some outs)
    then have "(currentId, outs) \<in> set graphOut" by (rule map_of_SomeD)
    then have "set outs \<subseteq> ?targets" by force
    with Some show ?thesis by (auto simp: unpositionedChildren_def)
  qed
  have "card (?targets - (positionedIds \<union> set ?cs)) < card (?targets - positionedIds)"
  proof (rule psubset_card_mono)
    show "finite (?targets - positionedIds)" by simp
    from c sub have "c \<in> ?targets - positionedIds" by blast
    moreover from c have "c \<notin> ?targets - (positionedIds \<union> set ?cs)" by simp
    ultimately show "?targets - (positionedIds \<union> set ?cs) \<subset> ?targets - positionedIds"
      by blast
  qed
  then show "((graphOut, placeChildren parentPos ?cs np, positionedIds \<union> set ?cs, queue @ ?cs),
              graphOut, np, positionedIds, currentId # queue)
       \<in> inv_image (less_than <*lex*> less_than)
    (\<lambda>(graphOut, np, positionedIds, queue).
       (card (set (concat (map snd graphOut)) - positionedIds), length queue))"
    by simp
next
  fix graphOut :: GraphConnections and np :: Positions and positionedIds :: "string set"
    and currentId :: string and queue :: "string list" and parentPos :: NodePosition
  show "((graphOut, np, positionedIds, queue), graphOut, np, positionedIds, currentId # queue)
       \<in> inv_image (less_than <*lex*> less_than)
    (\<lambda>(graphOut, np, positionedIds, queue).
       (card (set (concat (map snd graphOut)) - positionedIds), length queue))"
    by simp
qed

subsection \<open>Fallback placement (lines 346--358)\<close>

text \<open>\<^verbatim>\<open>Math.max(...values, 0)\<close>\<close>

definition maxWith0 :: "real list \<Rightarrow> real" where
  "maxWith0 values = fold max values 0"

text \<open>The \<^verbatim>\<open>forEach\<close> over the nodes that the traversal did not reach; \<^verbatim>\<open>maxX\<close> is read from
  the position table as it is at that round. (\<^verbatim>\<open>maxY\<close> is computed and not used.)\<close>

fun placeRemainingFrom :: "nat \<Rightarrow> 'd Node list \<Rightarrow> Positions \<Rightarrow> Positions" where
  "placeRemainingFrom index [] np = np"
| "placeRemainingFrom index (node # rest) np =
     placeRemainingFrom (index + 1) rest
       (AList.update (node_id node)
          \<lparr>pos_x = maxWith0 (map (\<lambda>p. pos_x (snd p)) np) + horizontalSpacing,
           pos_y = 100 + real index * verticalSpacing\<rparr> np)"

definition placeRemaining :: "'d Node list \<Rightarrow> string set \<Rightarrow> Positions \<Rightarrow> Positions" where
  "placeRemaining allNodes positionedIds np =
     placeRemainingFrom 0 (filter (\<lambda>node. node_id node \<notin> positionedIds) allNodes) np"

subsection \<open>Edge handles (lines 360--434)\<close>

definition hasReverseEdge :: "'e Edge list \<Rightarrow> 'e Edge \<Rightarrow> bool" where
  "hasReverseEdge allEdges edge =
     (\<exists>e \<in> set allEdges. source e = target edge \<and> target e = source edge)"

text \<open>The two branches of the handle choice, with the later assignment of the
  bidirectional case overriding the earlier one. \<open>redirect\<close> is
  \<^verbatim>\<open>hasReverseEdge && edge.source > edge.target\<close>.\<close>

definition chooseHandles :: "real \<Rightarrow> real \<Rightarrow> bool \<Rightarrow> string \<times> string" where
  "chooseHandles xDiff yDiff redirect =
     (if \<bar>xDiff\<bar> \<ge> \<bar>yDiff\<bar> then
        (let handles = (if xDiff > 0 then (''right-source'', ''left-target'')
                        else (''left-source'', ''right-target''))
         in if redirect then
              (if yDiff \<ge> 0 then (''top-source'', ''top-target'')
               else (''bottom-source'', ''bottom-target''))
            else handles)
      else
        (let handles = (if yDiff > 0 then (''bottom-source'', ''top-target'')
                        else (''top-source'', ''bottom-target''))
         in if redirect then
              (if xDiff \<ge> 0 then (''right-source'', ''right-target'')
               else (''left-source'', ''left-target''))
            else handles))"

definition enhanceEdge :: "Positions \<Rightarrow> 'e Edge list \<Rightarrow> 'e Edge \<Rightarrow> 'e Edge" where
  "enhanceEdge np allEdges edge =
     (case map_of np (source edge) of
        None \<Rightarrow> edge
      | Some sourcePos \<Rightarrow>
          (case map_of np (target edge) of
             None \<Rightarrow> edge
           | Some targetPos \<Rightarrow>
               (case chooseHandles (pos_x targetPos - pos_x sourcePos)
                       (pos_y targetPos - pos_y sourcePos)
                       (hasReverseEdge allEdges edge \<and> source edge > target edge) of
                  (sh, th) \<Rightarrow> edge\<lparr>sourceHandle := Some sh, targetHandle := Some th\<rparr>)))"

subsection \<open>The whole function\<close>

record 'e LayoutResult =
  nodePositions :: Positions
  enhancedEdges :: "'e Edge list"

text \<open>Lines 264--283: the two adjacency maps and the initial position table.\<close>

definition buildGraph ::
  "'d Node list \<Rightarrow> 'e Edge list \<Rightarrow> error + GraphConnections \<times> GraphConnections \<times> Positions" where
  "buildGraph allNodes allEdges =
     (case initNodes allNodes of
        (graphIn0, graphOut0, np0) \<Rightarrow>
          (case fillConnections allEdges (graphIn0, graphOut0) of
             Inl err \<Rightarrow> Inl err
           | Inr (graphIn, graphOut) \<Rightarrow> Inr (graphIn, graphOut, np0)))"

definition calculateAutoLayout ::
  "'d Node list \<Rightarrow> 'e Edge list \<Rightarrow> string option \<Rightarrow> error + 'e LayoutResult" where
  "calculateAutoLayout allNodes allEdges startNodeId =
     (case buildGraph allNodes allEdges of
        Inl err \<Rightarrow> Inl err
      | Inr (graphIn, graphOut, np0) \<Rightarrow>
          (case findRootNodeIds allNodes graphIn startNodeId of
             Inl err \<Rightarrow> Inl err
           | Inr rootNodeIds \<Rightarrow>
               (case bfs graphOut (placeRoots rootNodeIds np0)
                       (set rootNodeIds) rootNodeIds of
                  (np2, positionedIds) \<Rightarrow>
                    (let np3 = placeRemaining allNodes positionedIds np2
                     in Inr \<lparr>nodePositions = np3,
                             enhancedEdges = map (enhanceEdge np3 allEdges) allEdges\<rparr>))))"

text \<open>The list \<^verbatim>\<open>rootNodeIds\<close> of a call, as the function computes it.\<close>

definition rootNodeIdsOf ::
  "'d Node list \<Rightarrow> 'e Edge list \<Rightarrow> string option \<Rightarrow> error + string list" where
  "rootNodeIdsOf allNodes allEdges startNodeId =
     (case buildGraph allNodes allEdges of
        Inl err \<Rightarrow> Inl err
      | Inr (graphIn, graphOut, np0) \<Rightarrow> findRootNodeIds allNodes graphIn startNodeId)"


subsection \<open>Well-formed input\<close>

text \<open>Every edge references nodes of the supplied node set.\<close>

definition wellFormedEdges :: "'d Node list \<Rightarrow> 'e Edge list \<Rightarrow> bool" where
  "wellFormedEdges allNodes allEdges =
     (\<forall>edge \<in> set allEdges.
        source edge \<in> node_id ` set allNodes \<and> target edge \<in> node_id ` set allNodes)"

subsection \<open>The inline variant of the arc placement\<close>

text \<open>The loader of the diagram component (\<^verbatim>\<open>handleLoadRooms\<close>, lines 1167--1181 of
  \<^verbatim>\<open>src/unnamed/part_001\<close>) carries its own copy of the traversal. Its \<^verbatim>\<open>children.forEach\<close>
  places the children with \<^verbatim>\<open>const radius = horizontalSpacing\<close> on both axes.\<close>

definition childPosInline :: "NodePosition \<Rightarrow> nat \<Rightarrow> nat \<Rightarrow> NodePosition" where
  "childPosInline parentPos n index =
     (let radius = horizontalSpacing;
          angle = (pi / (real n + 1)) * (real index + 1)
      in \<lparr>pos_x = pos_x parentPos + radius * cos angle,
          pos_y = pos_y parentPos + radius * sin angle\<rparr>)"

fun placeChildrenInlineFrom ::
  "NodePosition \<Rightarrow> nat \<Rightarrow> nat \<Rightarrow> string list \<Rightarrow> Positions \<Rightarrow> Positions" where
  "placeChildrenInlineFrom parentPos n index [] np = np"
| "placeChildrenInlineFrom parentPos n index (childId # rest) np =
     placeChildrenInlineFrom parentPos n (index + 1) rest
       (AList.update childId (childPosInline parentPos n index) np)"

definition placeChildrenInline :: "NodePosition \<Rightarrow> string list \<Rightarrow> Positions \<Rightarrow> Positions" where
  "placeChildrenInline parentPos children np =
     placeChildrenInlineFrom parentPos (length children) 0 children np"

subsection \<open>The specification's formulations\<close>

text \<open>The arc placement as the specification words it: child \<open>k\<close> (1-based) of \<open>n\<close> at angle
  \<open>\<pi>/(n+1)\<cdot>k\<close>, one radius \<open>r\<close> on both axes.\<close>

definition specChildPos :: "real \<Rightarrow> NodePosition \<Rightarrow> nat \<Rightarrow> nat \<Rightarrow> NodePosition" where
  "specChildPos r parentPos n k =
     \<lparr>pos_x = pos_x parentPos + r * cos (pi / (real n + 1) * real k),
      pos_y = pos_y parentPos + r * sin (pi / (real n + 1) * real k)\<rparr>"

text \<open>When a start node id counts as supplied: whenever one is passed, as the specification
  reads; or when it is a truthy string, as \<^verbatim>\<open>startNodeId && ...\<close> tests it.\<close>

definition anySupplied :: "string \<Rightarrow> bool" where
  "anySupplied s = True"

definition truthySupplied :: "string \<Rightarrow> bool" where
  "truthySupplied s = (s \<noteq> [])"

text \<open>A node has zero incoming edges.\<close>

definition zeroIncoming :: "'e Edge list \<Rightarrow> string \<Rightarrow> bool" where
  "zeroIncoming allEdges k = (\<forall>edge \<in> set allEdges. target edge \<noteq> k)"

text \<open>The three ordered rules of root selection. \<open>supplied\<close> says when a start node id counts
  as supplied.\<close>

definition specRootNodeIds ::
  "(string \<Rightarrow> bool) \<Rightarrow> 'd Node list \<Rightarrow> 'e Edge list \<Rightarrow> string option \<Rightarrow> string list" where
  "specRootNodeIds supplied allNodes allEdges startNodeId =
     (case startNodeId of
        Some s \<Rightarrow>
          if supplied s \<and> s \<in> node_id ` set allNodes then [s]
          else if (\<exists>node \<in> set allNodes. zeroIncoming allEdges (node_id node))
          then map node_id (filter (\<lambda>node. zeroIncoming allEdges (node_id node)) allNodes)
          else if allNodes \<noteq> [] then [node_id (hd allNodes)] else []
      | None \<Rightarrow>
          if (\<exists>node \<in> set allNodes. zeroIncoming allEdges (node_id node))
          then map node_id (filter (\<lambda>node. zeroIncoming allEdges (node_id node)) allNodes)
          else if allNodes \<noteq> [] then [node_id (hd allNodes)] else [])"

text \<open>The handle pair of the dominant axis, and the pair of the opposite axis that the
  redirected edge of a bidirectional pair receives.\<close>

definition primaryHandles :: "real \<Rightarrow> real \<Rightarrow> string option \<times> string option" where
  "primaryHandles dx dy =
     (if \<bar>dx\<bar> \<ge> \<bar>dy\<bar> then
        (if dx > 0 then (Some ''right-source'', Some ''left-target'')
         else (Some ''left-source'', Some ''right-target''))
      else
        (if dy > 0 then (Some ''bottom-source'', Some ''top-target'')
         else (Some ''top-source'', Some ''bottom-target'')))"

definition offsetHandles :: "real \<Rightarrow> real \<Rightarrow> string option \<times> string option" where
  "offsetHandles dx dy =
     (if \<bar>dx\<bar> \<ge> \<bar>dy\<bar> then
        (if dy \<ge> 0 then (Some ''top-source'', Some ''top-target'')
         else (Some ''bottom-source'', Some ''bottom-target''))
      else
        (if dx \<ge> 0 then (Some ''right-source'', Some ''right-target'')
         else (Some ''left-source'', Some ''left-target'')))"

definition isOffsetPair :: "string option \<times> string option \<Rightarrow> bool" where
  "isOffsetPair p =
     (p \<in> {(Some ''top-source'', Some ''top-target''),
            (Some ''bottom-source'', Some ''bottom-target''),
            (Some ''right-source'', Some ''right-target''),
            (Some ''left-source'', Some ''left-target'')})"

definition handlePair :: "'e Edge \<Rightarrow> string option \<times> string option" where
  "handlePair edge = (sourceHandle edge, targetHandle edge)"

subsection \<open>Example diagrams\<close>

definition roomNode :: "string \<Rightarrow> real \<Rightarrow> real \<Rightarrow> unit Node" where
  "roomNode i a b = \<lparr>node_id = i, position = \<lparr>pos_x = a, pos_y = b\<rparr>, node_data = ()\<rparr>"

definition exitEdge :: "string \<Rightarrow> string \<Rightarrow> string \<Rightarrow> unit Edge" where
  "exitEdge i s t =
     \<lparr>edge_id = i, source = s, target = t, sourceHandle = None, targetHandle = None,
      edge_data = ()\<rparr>"

text \<open>The two-room cycle \<open>1 \<rightarrow> 2\<close>, \<open>2 \<rightarrow> 1\<close>.\<close>

definition cycleNodes :: "unit Node list" where
  "cycleNodes = [roomNode ''1'' 5 5, roomNode ''2'' 7 7]"

definition cycleEdges :: "unit Edge list" where
  "cycleEdges = [exitEdge ''e1'' ''1'' ''2'', exitEdge ''e2'' ''2'' ''1'']"

text \<open>One room and an exit to a room that is not in the node set.\<close>

definition danglingNodes :: "unit Node list" where
  "danglingNodes = [roomNode ''1'' 0 0]"

definition danglingEdges :: "unit Edge list" where
  "danglingEdges = [exitEdge ''e1'' ''1'' ''2'']"


definition noEdges :: "unit Edge list" where
  "noEdges = []"


text \<open>Two rooms without exits, the first with the empty string as its id.\<close>

definition emptyIdNodes :: "unit Node list" where
  "emptyIdNodes = [roomNode [] 0 0, roomNode ''a'' 0 0]"

text \<open>The chain \<open>1 \<rightarrow> 2\<close>.\<close>

definition chainNodes :: "unit Node list" where
  "chainNodes = [roomNode ''1'' 0 0, roomNode ''2'' 0 0]"

definition chainEdges :: "unit Edge list" where
  "chainEdges = [exitEdge ''e1'' ''1'' ''2'']"

definition chainLayout :: "unit LayoutResult" where
  "chainLayout =
     \<lparr>nodePositions = [(''1'', \<lparr>pos_x = 0, pos_y = 100\<rparr>), (''2'', \<lparr>pos_x = 0, pos_y = 300\<rparr>)],
      enhancedEdges =
        [(exitEdge ''e1'' ''1'' ''2'')
           \<lparr>sourceHandle := Some ''bottom-source'', targetHandle := Some ''top-target''\<rparr>]\<rparr>"

text \<open>The traversal state at the root of the fork \<open>1 \<rightarrow> 2\<close>, \<open>1 \<rightarrow> 3\<close>: the root is placed,
  its two children are not.\<close>

definition forkGraphOut :: GraphConnections where
  "forkGraphOut = [(''1'', [''2'', ''3'']), (''2'', []), (''3'', [])]"

definition forkPositions :: Positions where
  "forkPositions =
     [(''1'', \<lparr>pos_x = 0, pos_y = 100\<rparr>), (''2'', \<lparr>pos_x = 0, pos_y = 0\<rparr>),
      (''3'', \<lparr>pos_x = 0, pos_y = 0\<rparr>)]"

text \<open>An exit that already carries handles and leaves a room that is not in the node set,
  and the position table of the one room that is.\<close>

definition handledEdge :: "unit Edge" where
  "handledEdge =
     \<lparr>edge_id = ''e9'', source = ''2'', target = ''1'',
      sourceHandle = Some ''left-source'', targetHandle = Some ''right-target'',
      edge_data = ()\<rparr>"

definition partialPositions :: Positions where
  "partialPositions = [(''1'', \<lparr>pos_x = 0, pos_y = 100\<rparr>)]"

text \<open>A lone room \<open>0\<close> and the pair \<open>1 \<rightarrow> 2\<close>, \<open>2 \<rightarrow> 1\<close> that no root reaches: the pair is
  placed by the fallback, without any cosine or sine.\<close>

definition islandNodes :: "unit Node list" where
  "islandNodes = [roomNode ''0'' 0 0, roomNode ''1'' 0 0, roomNode ''2'' 0 0]"

definition islandEdges :: "unit Edge list" where
  "islandEdges = [exitEdge ''e1'' ''1'' ''2'', exitEdge ''e2'' ''2'' ''1'']"

definition islandLayout :: "unit LayoutResult" where
  "islandLayout =
     \<lparr>nodePositions =
        [(''0'', \<lparr>pos_x = 0, pos_y = 100\<rparr>), (''1'', \<lparr>pos_x = 300, pos_y = 100\<rparr>),
         (''2'', \<lparr>pos_x = 600, pos_y = 300\<rparr>)],
      enhancedEdges =
        [(exitEdge ''e1'' ''1'' ''2'')
           \<lparr>sourceHandle := Some ''right-source'', targetHandle := Some ''left-target''\<rparr>,
         (exitEdge ''e2'' ''2'' ''1'')
           \<lparr>sourceHandle := Some ''bottom-source'', targetHandle := Some ''bottom-target''\<rparr>]\<rparr>"






section \<open>Properties of the stages\<close>

lemma enhanceEdge_frame:
  "enhanceEdge np allEdges edge =
     edge\<lparr>sourceHandle := sourceHandle (enhanceEdge np allEdges edge),
           targetHandle := targetHandle (enhanceEdge np allEdges edge)\<rparr>"
  by (simp add: enhanceEdge_def split: option.splits prod.splits)

lemma enhanceEdge_fields:
  "edge_id (enhanceEdge np allEdges edge) = edge_id edge"
  "source (enhanceEdge np allEdges edge) = source edge"
  "target (enhanceEdge np allEdges edge) = target edge"
  "edge_data (enhanceEdge np allEdges edge) = edge_data edge"
  by (simp_all add: enhanceEdge_def split: option.splits prod.splits)

lemma enhanceEdge_positioned:
  assumes "map_of np (source edge) = Some sourcePos" and "map_of np (target edge) = Some targetPos"
  shows "(sourceHandle (enhanceEdge np allEdges edge), targetHandle (enhanceEdge np allEdges edge)) =
     map_prod Some Some (chooseHandles (pos_x targetPos - pos_x sourcePos)
        (pos_y targetPos - pos_y sourcePos)
        (hasReverseEdge allEdges edge \<and> source edge > target edge))"
  using assms by (simp add: enhanceEdge_def split: prod.splits)

lemma enhanceEdge_unpositioned:
  assumes "map_of np (source edge) = None \<or> map_of np (target edge) = None"
  shows "enhanceEdge np allEdges edge = edge"
  using assms by (auto simp: enhanceEdge_def split: option.splits)

lemma calculateAutoLayout_enhancedEdges:
  assumes "calculateAutoLayout allNodes allEdges startNodeId = Inr r"
  shows "enhancedEdges r = map (enhanceEdge (nodePositions r) allEdges) allEdges"
  using assms
  by (auto simp: calculateAutoLayout_def Let_def split: sum.splits prod.splits)

lemma initNode_apply:
  "initNode n (gi, go, np) =
     (AList.update (node_id n) [] gi, AList.update (node_id n) [] go,
      AList.update (node_id n) (position n) np)"
  by (simp add: initNode_def)

lemma initNode_fold_dom:
  "fold initNode ns (gi, go, np) = (gi', go', np') \<Longrightarrow>
     dom (map_of gi') = dom (map_of gi) \<union> node_id ` set ns \<and>
     dom (map_of go') = dom (map_of go) \<union> node_id ` set ns \<and>
     dom (map_of np') = dom (map_of np) \<union> node_id ` set ns"
proof (induction ns arbitrary: gi go np)
  case Nil
  then show ?case by simp
next
  case (Cons n ns)
  from Cons.prems have "fold initNode ns (AList.update (node_id n) [] gi,
         AList.update (node_id n) [] go,
         AList.update (node_id n) (position n) np) = (gi', go', np')"
    by (simp add: initNode_apply)
  from Cons.IH[OF this] show ?case
    by (auto simp: update_conv')
qed

lemma initNode_fold_empty:
  "fold initNode ns (gi, go, np) = (gi', go', np') \<Longrightarrow>
     (\<forall>k. map_of gi' k = (if k \<in> node_id ` set ns then Some [] else map_of gi k)) \<and>
     (\<forall>k. map_of go' k = (if k \<in> node_id ` set ns then Some [] else map_of go k))"
proof (induction ns arbitrary: gi go np)
  case Nil
  then show ?case by simp
next
  case (Cons n ns)
  from Cons.prems have "fold initNode ns (AList.update (node_id n) [] gi,
         AList.update (node_id n) [] go,
         AList.update (node_id n) (position n) np) = (gi', go', np')"
    by (simp add: initNode_apply)
  from Cons.IH[OF this] show ?case
    by (auto simp: update_conv')
qed

lemma initNodes_dom:
  assumes "initNodes allNodes = (graphIn0, graphOut0, np0)"
  shows "dom (map_of graphIn0) = node_id ` set allNodes"
    and "dom (map_of graphOut0) = node_id ` set allNodes"
    and "dom (map_of np0) = node_id ` set allNodes"
  using initNode_fold_dom[of allNodes "[]" "[]" "[]" graphIn0 graphOut0 np0] assms
  by (simp_all add: initNodes_def)

lemma initNodes_empty:
  assumes "initNodes allNodes = (graphIn0, graphOut0, np0)"
  shows "map_of graphIn0 k = (if k \<in> node_id ` set allNodes then Some [] else None)"
    and "map_of graphOut0 k = (if k \<in> node_id ` set allNodes then Some [] else None)"
  using initNode_fold_empty[of allNodes "[]" "[]" "[]" graphIn0 graphOut0 np0] assms
  by (simp_all add: initNodes_def)

lemma addEdge_ok:
  assumes "source edge \<in> dom (map_of graphOut)" and "target edge \<in> dom (map_of graphIn)"
  shows "\<exists>graphIn' graphOut'. addEdge edge (graphIn, graphOut) = Inr (graphIn', graphOut') \<and>
     (\<forall>k. map_of graphIn' k =
        map_option (\<lambda>l. if k = target edge then l @ [source edge] else l) (map_of graphIn k)) \<and>
     (\<forall>k. map_of graphOut' k =
        map_option (\<lambda>l. if k = source edge then l @ [target edge] else l) (map_of graphOut k))"
  using assms by (auto simp: addEdge_def update_conv' option.map_ident)

lemma addEdge_fail:
  assumes "source edge \<notin> dom (map_of graphOut) \<or> target edge \<notin> dom (map_of graphIn)"
  shows "addEdge edge (graphIn, graphOut) = Inl TypeError"
  using assms by (auto simp: addEdge_def split: option.splits)

lemma map_option_dom: "(\<forall>k. m' k = map_option (f k) (m k)) \<Longrightarrow> dom m' = dom m"
  by (auto simp: dom_def)

lemma fillConnections_ok:
  assumes "\<forall>edge \<in> set es. source edge \<in> dom (map_of graphOut) \<and> target edge \<in> dom (map_of graphIn)"
  shows "\<exists>graphIn' graphOut'. fillConnections es (graphIn, graphOut) = Inr (graphIn', graphOut') \<and>
     (\<forall>k. map_of graphIn' k =
        map_option (\<lambda>l. l @ map source (filter (\<lambda>e. target e = k) es)) (map_of graphIn k)) \<and>
     (\<forall>k. map_of graphOut' k =
        map_option (\<lambda>l. l @ map target (filter (\<lambda>e. source e = k) es)) (map_of graphOut k))"
  using assms
proof (induction es arbitrary: graphIn graphOut)
  case Nil
  then show ?case by (simp add: option.map_ident)
next
  case (Cons e es)
  then have "source e \<in> dom (map_of graphOut)" "target e \<in> dom (map_of graphIn)" by simp_all
  from addEdge_ok[OF this] obtain gi1 go1 where
    step: "addEdge e (graphIn, graphOut) = Inr (gi1, go1)"
    and gi1: "\<forall>k. map_of gi1 k =
        map_option (\<lambda>l. if k = target e then l @ [source e] else l) (map_of graphIn k)"
    and go1: "\<forall>k. map_of go1 k =
        map_option (\<lambda>l. if k = source e then l @ [target e] else l) (map_of graphOut k)"
    by blast
  have "dom (map_of gi1) = dom (map_of graphIn)" "dom (map_of go1) = dom (map_of graphOut)"
    using gi1 go1 by (auto simp: dom_def)
  with Cons.prems have "\<forall>edge \<in> set es. source edge \<in> dom (map_of go1) \<and> target edge \<in> dom (map_of gi1)"
    by simp
  from Cons.IH[OF this] obtain gi2 go2 where
    rest: "fillConnections es (gi1, go1) = Inr (gi2, go2)"
    and gi2: "\<forall>k. map_of gi2 k =
        map_option (\<lambda>l. l @ map source (filter (\<lambda>e. target e = k) es)) (map_of gi1 k)"
    and go2: "\<forall>k. map_of go2 k =
        map_option (\<lambda>l. l @ map target (filter (\<lambda>e. source e = k) es)) (map_of go1 k)"
    by blast
  have "fillConnections (e # es) (graphIn, graphOut) = Inr (gi2, go2)"
    using step rest by simp
  moreover have "\<forall>k. map_of gi2 k =
        map_option (\<lambda>l. l @ map source (filter (\<lambda>e. target e = k) (e # es))) (map_of graphIn k)"
    using gi1 gi2 by (auto simp: option.map_comp comp_def intro!: option.map_cong)
  moreover have "\<forall>k. map_of go2 k =
        map_option (\<lambda>l. l @ map target (filter (\<lambda>e. source e = k) (e # es))) (map_of graphOut k)"
    using go1 go2 by (auto simp: option.map_comp comp_def intro!: option.map_cong)
  ultimately show ?case by blast
qed

lemma fillConnections_fail:
  assumes "\<exists>edge \<in> set es. source edge \<notin> dom (map_of graphOut) \<or> target edge \<notin> dom (map_of graphIn)"
  shows "fillConnections es (graphIn, graphOut) = Inl TypeError"
  using assms
proof (induction es arbitrary: graphIn graphOut)
  case Nil
  then show ?case by simp
next
  case (Cons e es)
  show ?case
  proof (cases "source e \<in> dom (map_of graphOut) \<and> target e \<in> dom (map_of graphIn)")
    case False
    then show ?thesis using addEdge_fail[of e graphOut graphIn] by auto
  next
    case True
    then obtain gi1 go1 where
      step: "addEdge e (graphIn, graphOut) = Inr (gi1, go1)"
      and gi1: "\<forall>k. map_of gi1 k =
          map_option (\<lambda>l. if k = target e then l @ [source e] else l) (map_of graphIn k)"
      and go1: "\<forall>k. map_of go1 k =
          map_option (\<lambda>l. if k = source e then l @ [target e] else l) (map_of graphOut k)"
      using addEdge_ok[of e graphOut graphIn] by blast
    have doms: "dom (map_of gi1) = dom (map_of graphIn)" "dom (map_of go1) = dom (map_of graphOut)"
      using gi1 go1 by (auto simp: dom_def)
    from Cons.prems True have "\<exists>edge \<in> set es. source edge \<notin> dom (map_of go1) \<or> target edge \<notin> dom (map_of gi1)"
      using doms by auto
    from Cons.IH[OF this] step show ?thesis by simp
  qed
qed

lemma buildGraph_ok:
  assumes "wellFormedEdges allNodes allEdges"
  shows "\<exists>graphIn graphOut np0. buildGraph allNodes allEdges = Inr (graphIn, graphOut, np0) \<and>
     (\<forall>k. map_of graphIn k =
        (if k \<in> node_id ` set allNodes
         then Some (map source (filter (\<lambda>e. target e = k) allEdges)) else None)) \<and>
     (\<forall>k. map_of graphOut k =
        (if k \<in> node_id ` set allNodes
         then Some (map target (filter (\<lambda>e. source e = k) allEdges)) else None)) \<and>
     dom (map_of np0) = node_id ` set allNodes"
proof -
  obtain gi0 go0 np0 where init: "initNodes allNodes = (gi0, go0, np0)"
    by (cases "initNodes allNodes") auto
  note doms = initNodes_dom[OF init] and empties = initNodes_empty[OF init]
  from assms have "\<forall>edge \<in> set allEdges. source edge \<in> dom (map_of go0) \<and> target edge \<in> dom (map_of gi0)"
    by (simp add: wellFormedEdges_def doms)
  from fillConnections_ok[OF this] obtain gi go where
    fill: "fillConnections allEdges (gi0, go0) = Inr (gi, go)"
    and gi: "\<forall>k. map_of gi k =
        map_option (\<lambda>l. l @ map source (filter (\<lambda>e. target e = k) allEdges)) (map_of gi0 k)"
    and go: "\<forall>k. map_of go k =
        map_option (\<lambda>l. l @ map target (filter (\<lambda>e. source e = k) allEdges)) (map_of go0 k)"
    by blast
  have "buildGraph allNodes allEdges = Inr (gi, go, np0)"
    by (simp add: buildGraph_def init fill)
  moreover have "\<forall>k. map_of gi k =
        (if k \<in> node_id ` set allNodes
         then Some (map source (filter (\<lambda>e. target e = k) allEdges)) else None)"
    using gi by (simp add: empties(1))
  moreover have "\<forall>k. map_of go k =
        (if k \<in> node_id ` set allNodes
         then Some (map target (filter (\<lambda>e. source e = k) allEdges)) else None)"
    using go by (simp add: empties(2))
  ultimately show ?thesis using doms(3) by blast
qed

lemma buildGraph_fail:
  assumes "\<not> wellFormedEdges allNodes allEdges"
  shows "buildGraph allNodes allEdges = Inl TypeError"
proof -
  obtain gi0 go0 np0 where init: "initNodes allNodes = (gi0, go0, np0)"
    by (cases "initNodes allNodes") auto
  note doms = initNodes_dom[OF init]
  from assms have "\<exists>edge \<in> set allEdges. source edge \<notin> dom (map_of go0) \<or> target edge \<notin> dom (map_of gi0)"
    by (auto simp: wellFormedEdges_def doms)
  from fillConnections_fail[OF this] show ?thesis
    by (simp add: buildGraph_def init)
qed

lemma zeroInDegree_ok:
  assumes "node_id ` set ns \<subseteq> dom (map_of graphIn)"
  shows "zeroInDegree graphIn ns =
     Inr (map node_id (filter (\<lambda>n. map_of graphIn (node_id n) = Some []) ns))"
  using assms by (induction ns) auto

lemma findRootNodeIds_ok:
  assumes "node_id ` set allNodes \<subseteq> dom (map_of graphIn)"
  shows "findRootNodeIds allNodes graphIn startNodeId =
     Inr (if startNodeUsable allNodes startNodeId then [the startNodeId]
          else if filter (\<lambda>n. map_of graphIn (node_id n) = Some []) allNodes \<noteq> []
          then map node_id (filter (\<lambda>n. map_of graphIn (node_id n) = Some []) allNodes)
          else if allNodes \<noteq> [] then [node_id (hd allNodes)] else [])"
proof -
  have z: "zeroInDegree graphIn allNodes =
     Inr (map node_id (filter (\<lambda>n. map_of graphIn (node_id n) = Some []) allNodes))"
    by (rule zeroInDegree_ok[OF assms])
  show ?thesis
    unfolding findRootNodeIds_def z by (cases allNodes) simp_all
qed

lemma findRootNodeIds_subset:
  assumes "findRootNodeIds allNodes graphIn startNodeId = Inr rootNodeIds"
    and "node_id ` set allNodes \<subseteq> dom (map_of graphIn)"
  shows "set rootNodeIds \<subseteq> node_id ` set allNodes"
proof -
  have "set (if startNodeUsable allNodes startNodeId then [the startNodeId]
          else if filter (\<lambda>n. map_of graphIn (node_id n) = Some []) allNodes \<noteq> []
          then map node_id (filter (\<lambda>n. map_of graphIn (node_id n) = Some []) allNodes)
          else if allNodes \<noteq> [] then [node_id (hd allNodes)] else []) \<subseteq> node_id ` set allNodes"
    by (auto simp: startNodeUsable_def split: option.splits)
  with assms show ?thesis by (simp add: findRootNodeIds_ok)
qed

lemma placeRootsFrom_dom:
  "dom (map_of (placeRootsFrom index rs np)) = dom (map_of np) \<union> set rs"
  by (induction rs arbitrary: index np) (auto simp: update_conv')



lemma placeChildrenFrom_dom:
  "dom (map_of (placeChildrenFrom parentPos n index cs np)) = dom (map_of np) \<union> set cs"
  by (induction cs arbitrary: index np) (auto simp: update_conv')

lemma placeChildrenFrom_other:
  "k \<notin> set cs \<Longrightarrow> map_of (placeChildrenFrom parentPos n index cs np) k = map_of np k"
  by (induction cs arbitrary: index np) (auto simp: update_conv')

lemma placeChildrenFrom_nth:
  assumes "j < length cs" and "cs ! j \<notin> set (drop (Suc j) cs)"
  shows "map_of (placeChildrenFrom parentPos n index cs np) (cs ! j) =
     Some (childPos parentPos n (index + j))"
  using assms
proof (induction cs arbitrary: index np j)
  case Nil
  then show ?case by simp
next
  case (Cons c cs)
  show ?case
  proof (cases j)
    case 0
    with Cons.prems have "c \<notin> set cs" by simp
    then show ?thesis using 0 by (simp add: placeChildrenFrom_other update_conv')
  next
    case (Suc i)
    with Cons.prems have "i < length cs" "cs ! i \<notin> set (drop (Suc i) cs)" by simp_all
    from Cons.IH[OF this] show ?thesis using Suc by simp
  qed
qed

lemma last_occurrence:
  assumes "c \<in> set cs"
  shows "\<exists>j < length cs. cs ! j = c \<and> c \<notin> set (drop (Suc j) cs)"
  using assms
proof (induction cs)
  case Nil
  then show ?case by simp
next
  case (Cons a cs)
  show ?case
  proof (cases "c \<in> set cs")
    case True
    from Cons.IH[OF this] obtain j where "j < length cs" "cs ! j = c" "c \<notin> set (drop (Suc j) cs)"
      by blast
    then have "Suc j < length (a # cs) \<and> (a # cs) ! Suc j = c \<and> c \<notin> set (drop (Suc (Suc j)) (a # cs))"
      by simp
    then show ?thesis by blast
  next
    case False
    with Cons.prems have "a = c" by simp
    with False have "0 < length (a # cs) \<and> (a # cs) ! 0 = c \<and> c \<notin> set (drop (Suc 0) (a # cs))"
      by simp
    then show ?thesis by blast
  qed
qed

lemma placeChildren_member:
  assumes "c \<in> set cs"
  shows "\<exists>j < length cs. cs ! j = c \<and>
     map_of (placeChildren parentPos cs np) c = Some (childPos parentPos (length cs) j)"
proof -
  from last_occurrence[OF assms] obtain j where
    j: "j < length cs" "cs ! j = c" "c \<notin> set (drop (Suc j) cs)" by blast
  then have "cs ! j \<notin> set (drop (Suc j) cs)" by simp
  from placeChildrenFrom_nth[OF j(1) this, of parentPos "length cs" 0 np] j
  show ?thesis by (auto simp: placeChildren_def)
qed

lemma unpositionedChildren_fresh:
  "c \<in> set (unpositionedChildren graphOut positionedIds currentId) \<Longrightarrow> c \<notin> positionedIds"
  by (auto simp: unpositionedChildren_def split: option.splits)

lemma bfs_keeps_positioned:
  "k \<in> positionedIds \<Longrightarrow> map_of (fst (bfs graphOut np positionedIds queue)) k = map_of np k"
proof (induction graphOut np positionedIds queue rule: bfs.induct)
  case (1 graphOut np positionedIds)
  then show ?case by simp
next
  case (2 graphOut np positionedIds currentId queue)
  show ?case
  proof (cases "map_of np currentId")
    case None
    with 2 show ?thesis by simp
  next
    case (Some parentPos)
    show ?thesis
    proof (cases "0 < length (unpositionedChildren graphOut positionedIds currentId)")
      case True
      from 2(4) have "k \<notin> set (unpositionedChildren graphOut positionedIds currentId)"
        using unpositionedChildren_fresh by blast
      then have "map_of (placeChildren parentPos
          (unpositionedChildren graphOut positionedIds currentId) np) k = map_of np k"
        by (simp add: placeChildren_def placeChildrenFrom_other)
      moreover have "map_of (fst (bfs graphOut
          (placeChildren parentPos (unpositionedChildren graphOut positionedIds currentId) np)
          (positionedIds \<union> set (unpositionedChildren graphOut positionedIds currentId))
          (queue @ unpositionedChildren graphOut positionedIds currentId))) k =
         map_of (placeChildren parentPos
          (unpositionedChildren graphOut positionedIds currentId) np) k"
        using 2(2)[OF Some True] 2(4) by simp
      ultimately show ?thesis using Some True by simp
    next
      case False
      with 2 Some show ?thesis by simp
    qed
  qed
qed


lemma bfs_dom:
  "dom (map_of np) \<subseteq> dom (map_of (fst (bfs graphOut np positionedIds queue)))"
proof (induction graphOut np positionedIds queue rule: bfs.induct)
  case (1 graphOut np positionedIds)
  then show ?case by simp
next
  case (2 graphOut np positionedIds currentId queue)
  show ?case
  proof (cases "map_of np currentId")
    case None
    with 2 show ?thesis by simp
  next
    case (Some parentPos)
    show ?thesis
    proof (cases "0 < length (unpositionedChildren graphOut positionedIds currentId)")
      case True
      have "dom (map_of np) \<subseteq> dom (map_of (placeChildren parentPos
          (unpositionedChildren graphOut positionedIds currentId) np))"
        by (simp add: placeChildren_def placeChildrenFrom_dom)
      with 2(2)[OF Some True] Some True show ?thesis by auto
    next
      case False
      with 2 Some show ?thesis by simp
    qed
  qed
qed

lemma placeRemainingFrom_dom:
  "dom (map_of (placeRemainingFrom index ns np)) = dom (map_of np) \<union> node_id ` set ns"
  by (induction ns arbitrary: index np) (auto simp: update_conv')



lemma placeRemaining_dom:
  "dom (map_of np) \<subseteq> dom (map_of (placeRemaining allNodes positionedIds np))"
  by (simp add: placeRemaining_def placeRemainingFrom_dom)

lemma buildGraph_Inr_wellFormed:
  assumes "buildGraph allNodes allEdges = Inr g"
  shows "wellFormedEdges allNodes allEdges"
  using assms buildGraph_fail[of allNodes allEdges] by auto

lemma buildGraph_Inr_facts:
  assumes "buildGraph allNodes allEdges = Inr (graphIn, graphOut, np0)"
  shows "map_of graphIn k =
        (if k \<in> node_id ` set allNodes
         then Some (map source (filter (\<lambda>e. target e = k) allEdges)) else None)"
    and "map_of graphOut k =
        (if k \<in> node_id ` set allNodes
         then Some (map target (filter (\<lambda>e. source e = k) allEdges)) else None)"
    and "dom (map_of np0) = node_id ` set allNodes"
    and "dom (map_of graphIn) = node_id ` set allNodes"
proof -
  from buildGraph_ok[OF buildGraph_Inr_wellFormed[OF assms]] assms
  have gi: "\<forall>k. map_of graphIn k =
        (if k \<in> node_id ` set allNodes
         then Some (map source (filter (\<lambda>e. target e = k) allEdges)) else None)"
    and go: "\<forall>k. map_of graphOut k =
        (if k \<in> node_id ` set allNodes
         then Some (map target (filter (\<lambda>e. source e = k) allEdges)) else None)"
    and np: "dom (map_of np0) = node_id ` set allNodes"
    by auto
  from gi show "map_of graphIn k =
        (if k \<in> node_id ` set allNodes
         then Some (map source (filter (\<lambda>e. target e = k) allEdges)) else None)" by simp
  from go show "map_of graphOut k =
        (if k \<in> node_id ` set allNodes
         then Some (map target (filter (\<lambda>e. source e = k) allEdges)) else None)" by simp
  from np show "dom (map_of np0) = node_id ` set allNodes" .
  from gi show "dom (map_of graphIn) = node_id ` set allNodes"
    by (auto simp: dom_def)
qed

lemma calculateAutoLayout_fail:
  assumes "\<not> wellFormedEdges allNodes allEdges"
  shows "calculateAutoLayout allNodes allEdges startNodeId = Inl TypeError"
  by (simp add: calculateAutoLayout_def buildGraph_fail[OF assms])

lemma calculateAutoLayout_stages:
  assumes "buildGraph allNodes allEdges = Inr (graphIn, graphOut, np0)"
    and "findRootNodeIds allNodes graphIn startNodeId = Inr rootNodeIds"
  shows "calculateAutoLayout allNodes allEdges startNodeId =
     Inr \<lparr>nodePositions =
            placeRemaining allNodes
              (snd (bfs graphOut (placeRoots rootNodeIds np0) (set rootNodeIds) rootNodeIds))
              (fst (bfs graphOut (placeRoots rootNodeIds np0) (set rootNodeIds) rootNodeIds)),
          enhancedEdges =
            map (enhanceEdge
                (placeRemaining allNodes
                  (snd (bfs graphOut (placeRoots rootNodeIds np0) (set rootNodeIds) rootNodeIds))
                  (fst (bfs graphOut (placeRoots rootNodeIds np0) (set rootNodeIds) rootNodeIds)))
                allEdges) allEdges\<rparr>"
  using assms by (simp add: calculateAutoLayout_def Let_def split: prod.splits)

lemma calculateAutoLayout_ok:
  assumes "wellFormedEdges allNodes allEdges"
  shows "\<exists>graphIn graphOut np0 rootNodeIds.
     buildGraph allNodes allEdges = Inr (graphIn, graphOut, np0) \<and>
     findRootNodeIds allNodes graphIn startNodeId = Inr rootNodeIds"
proof -
  from buildGraph_ok[OF assms] obtain graphIn graphOut np0 where
    bg: "buildGraph allNodes allEdges = Inr (graphIn, graphOut, np0)" by blast
  have "node_id ` set allNodes \<subseteq> dom (map_of graphIn)"
    using buildGraph_Inr_facts(4)[OF bg] by simp
  from findRootNodeIds_ok[OF this, of startNodeId] bg show ?thesis by blast
qed

lemma calculateAutoLayout_total:
  assumes "wellFormedEdges allNodes allEdges"
  shows "\<exists>r. calculateAutoLayout allNodes allEdges startNodeId = Inr r"
  using calculateAutoLayout_ok[OF assms, of startNodeId] calculateAutoLayout_stages
  by blast

lemma calculateAutoLayout_Inr_stages:
  assumes "calculateAutoLayout allNodes allEdges startNodeId = Inr r"
  shows "\<exists>graphIn graphOut np0 rootNodeIds.
     buildGraph allNodes allEdges = Inr (graphIn, graphOut, np0) \<and>
     findRootNodeIds allNodes graphIn startNodeId = Inr rootNodeIds \<and>
     nodePositions r =
       placeRemaining allNodes
         (snd (bfs graphOut (placeRoots rootNodeIds np0) (set rootNodeIds) rootNodeIds))
         (fst (bfs graphOut (placeRoots rootNodeIds np0) (set rootNodeIds) rootNodeIds))"
proof -
  have "wellFormedEdges allNodes allEdges"
    using assms calculateAutoLayout_fail[of allNodes allEdges startNodeId] by auto
  from calculateAutoLayout_ok[OF this, of startNodeId] obtain graphIn graphOut np0 rootNodeIds
    where st: "buildGraph allNodes allEdges = Inr (graphIn, graphOut, np0)"
      "findRootNodeIds allNodes graphIn startNodeId = Inr rootNodeIds" by blast
  from calculateAutoLayout_stages[OF st] assms
  have "nodePositions r =
       placeRemaining allNodes
         (snd (bfs graphOut (placeRoots rootNodeIds np0) (set rootNodeIds) rootNodeIds))
         (fst (bfs graphOut (placeRoots rootNodeIds np0) (set rootNodeIds) rootNodeIds))"
    by auto
  with st show ?thesis by blast
qed

lemma calculateAutoLayout_covers:
  assumes "calculateAutoLayout allNodes allEdges startNodeId = Inr r"
  shows "node_id ` set allNodes \<subseteq> dom (map_of (nodePositions r))"
proof -
  from calculateAutoLayout_Inr_stages[OF assms] obtain graphIn graphOut np0 rootNodeIds where
    bg: "buildGraph allNodes allEdges = Inr (graphIn, graphOut, np0)"
    and np: "nodePositions r =
       placeRemaining allNodes
         (snd (bfs graphOut (placeRoots rootNodeIds np0) (set rootNodeIds) rootNodeIds))
         (fst (bfs graphOut (placeRoots rootNodeIds np0) (set rootNodeIds) rootNodeIds))"
    by blast
  have "node_id ` set allNodes = dom (map_of np0)"
    using buildGraph_Inr_facts(3)[OF bg] by simp
  also have "\<dots> \<subseteq> dom (map_of (placeRoots rootNodeIds np0))"
    by (simp add: placeRoots_def placeRootsFrom_dom)
  also have "\<dots> \<subseteq> dom (map_of (fst (bfs graphOut (placeRoots rootNodeIds np0)
      (set rootNodeIds) rootNodeIds)))"
    by (rule bfs_dom)
  also have "\<dots> \<subseteq> dom (map_of (nodePositions r))"
    unfolding np by (rule placeRemaining_dom)
  finally show ?thesis .
qed


lemmas fixture_defs = roomNode_def exitEdge_def

lemmas cycle_defs = fixture_defs cycleNodes_def cycleEdges_def

lemmas island_defs = fixture_defs islandNodes_def islandEdges_def islandLayout_def

lemmas layout_defs = calculateAutoLayout_def buildGraph_def initNodes_def initNode_apply addEdge_def
  findRootNodeIds_def startNodeUsable_def placeRoots_def placeRemaining_def
  unpositionedChildren_def placeChildren_def childPos_def horizontalSpacing_def
  verticalSpacing_def enhanceEdge_def hasReverseEdge_def chooseHandles_def maxWith0_def

lemma chooseHandles_primary:
  "map_prod Some Some (chooseHandles dx dy False) = primaryHandles dx dy"
  by (simp add: chooseHandles_def primaryHandles_def)

lemma chooseHandles_offset:
  "map_prod Some Some (chooseHandles dx dy True) = offsetHandles dx dy"
  by (simp add: chooseHandles_def offsetHandles_def)

lemma offset_neq_primary: "offsetHandles dx dy \<noteq> primaryHandles dx' dy'"
  by (simp add: offsetHandles_def primaryHandles_def)

lemma enhancedEdges_nth:
  assumes "calculateAutoLayout allNodes allEdges startNodeId = Inr r" and "i < length allEdges"
  shows "enhancedEdges r ! i = enhanceEdge (nodePositions r) allEdges (allEdges ! i)"
  using assms by (simp add: calculateAutoLayout_enhancedEdges)

lemma handlePair_positioned:
  assumes "map_of np (source edge) = Some sourcePos" and "map_of np (target edge) = Some targetPos"
  shows "handlePair (enhanceEdge np allEdges edge) =
     (if hasReverseEdge allEdges edge \<and> source edge > target edge
      then offsetHandles (pos_x targetPos - pos_x sourcePos) (pos_y targetPos - pos_y sourcePos)
      else primaryHandles (pos_x targetPos - pos_x sourcePos) (pos_y targetPos - pos_y sourcePos))"
proof (cases "hasReverseEdge allEdges edge \<and> source edge > target edge")
  case True
  with enhanceEdge_positioned[OF assms, of allEdges] show ?thesis
    by (simp add: handlePair_def chooseHandles_offset)
next
  case False
  then have "(hasReverseEdge allEdges edge \<and> source edge > target edge) = False" by simp
  with enhanceEdge_positioned[OF assms, of allEdges]
  have "handlePair (enhanceEdge np allEdges edge) =
      primaryHandles (pos_x targetPos - pos_x sourcePos) (pos_y targetPos - pos_y sourcePos)"
    by (simp add: handlePair_def chooseHandles_primary)
  with False show ?thesis by auto
qed

lemma offsetHandles_isOffset: "isOffsetPair (offsetHandles dx dy)"
  by (simp add: isOffsetPair_def offsetHandles_def)

lemma primaryHandles_not_isOffset: "\<not> isOffsetPair (primaryHandles dx dy)"
  by (simp add: isOffsetPair_def primaryHandles_def)

lemma rootNodeIdsOf_Inr_stages:
  assumes "rootNodeIdsOf allNodes allEdges startNodeId = Inr rootNodeIds"
  shows "\<exists>graphIn graphOut np0.
     buildGraph allNodes allEdges = Inr (graphIn, graphOut, np0) \<and>
     findRootNodeIds allNodes graphIn startNodeId = Inr rootNodeIds"
  using assms by (auto simp: rootNodeIdsOf_def split: sum.splits)

lemma chain_run: "calculateAutoLayout chainNodes chainEdges None = Inr chainLayout"
  by (simp add: fixture_defs chainNodes_def chainEdges_def chainLayout_def layout_defs)

lemma cycle_wellFormed: "wellFormedEdges cycleNodes cycleEdges"
  by (simp add: wellFormedEdges_def cycle_defs)

lemma child_angle_bounds:
  assumes "i < n"
  shows "0 \<le> pi / (real n + 1) * (real i + 1)" and "pi / (real n + 1) * (real i + 1) \<le> pi"
proof -
  show "0 \<le> pi / (real n + 1) * (real i + 1)" by simp
  have "(real i + 1) / (real n + 1) \<le> 1" using assms by simp
  then have "pi * ((real i + 1) / (real n + 1)) \<le> pi * 1"
    by (intro mult_left_mono) simp_all
  then show "pi / (real n + 1) * (real i + 1) \<le> pi" by (simp add: field_simps)
qed

lemma childPos_x_inj:
  assumes "i < n" and "j < n" and "pos_x (childPos parentPos n i) = pos_x (childPos parentPos n j)"
  shows "i = j"
proof -
  note bi = child_angle_bounds[OF assms(1)] and bj = child_angle_bounds[OF assms(2)]
  from assms(3)
  have eq: "cos (pi / (real n + 1) * (real i + 1)) = cos (pi / (real n + 1) * (real j + 1))"
    by (simp add: childPos_def horizontalSpacing_def Let_def)
  have "pi / (real n + 1) * (real i + 1) = pi / (real n + 1) * (real j + 1)"
    by (rule cos_inj_pi[OF bi(1) bi(2) bj(1) bj(2) eq])
  then have "real i + 1 = real j + 1" by simp
  then show ?thesis by simp
qed

lemma bfs_wave:
  assumes "map_of np currentId = Some parentPos"
    and "children = unpositionedChildren graphOut positionedIds currentId"
    and "children \<noteq> []"
  shows "bfs graphOut np positionedIds (currentId # queue) =
     bfs graphOut (placeChildren parentPos children np) (positionedIds \<union> set children)
       (queue @ children)"
  using assms by simp

lemma bfs_wave_final:
  assumes "map_of np currentId = Some parentPos"
    and "children = unpositionedChildren graphOut positionedIds currentId"
    and "c \<in> set children"
  shows "map_of (fst (bfs graphOut np positionedIds (currentId # queue))) c =
     map_of (placeChildren parentPos children np) c"
proof -
  from assms(3) have ne: "children \<noteq> []" by auto
  have "c \<in> positionedIds \<union> set children" using assms(3) by simp
  then have "map_of (fst (bfs graphOut (placeChildren parentPos children np)
      (positionedIds \<union> set children) (queue @ children))) c =
     map_of (placeChildren parentPos children np) c"
    by (rule bfs_keeps_positioned)
  then show ?thesis unfolding bfs_wave[OF assms(1,2) ne] .
qed

lemma childPosInline_spec:
  assumes "1 \<le> k"
  shows "childPosInline parentPos n (k - 1) = specChildPos horizontalSpacing parentPos n k"
proof -
  have "real (k - 1) + 1 = real k" using assms by simp
  then show ?thesis by (simp add: childPosInline_def specChildPos_def Let_def)
qed

lemma placeChildrenInlineFrom_other:
  "k \<notin> set cs \<Longrightarrow> map_of (placeChildrenInlineFrom parentPos n index cs np) k = map_of np k"
  by (induction cs arbitrary: index np) (auto simp: update_conv')

lemma placeChildrenInlineFrom_nth:
  assumes "j < length cs" and "cs ! j \<notin> set (drop (Suc j) cs)"
  shows "map_of (placeChildrenInlineFrom parentPos n index cs np) (cs ! j) =
     Some (childPosInline parentPos n (index + j))"
  using assms
proof (induction cs arbitrary: index np j)
  case Nil
  then show ?case by simp
next
  case (Cons c cs)
  show ?case
  proof (cases j)
    case 0
    with Cons.prems have "c \<notin> set cs" by simp
    then show ?thesis using 0 by (simp add: placeChildrenInlineFrom_other update_conv')
  next
    case (Suc i)
    with Cons.prems have "i < length cs" "cs ! i \<notin> set (drop (Suc i) cs)" by simp_all
    from Cons.IH[OF this] show ?thesis using Suc by simp
  qed
qed

lemma island_run: "calculateAutoLayout islandNodes islandEdges None = Inr islandLayout"
  by (simp add: fixture_defs islandNodes_def islandEdges_def islandLayout_def layout_defs)



















lemma calculateAutoLayout_raises_iff:
  "(calculateAutoLayout allNodes allEdges startNodeId = Inl TypeError)
      = (\<not> wellFormedEdges allNodes allEdges) \<and>
   (\<exists>r. calculateAutoLayout allNodes allEdges startNodeId = Inr r)
      = wellFormedEdges allNodes allEdges"
proof (cases "wellFormedEdges allNodes allEdges")
  case True
  from calculateAutoLayout_total[OF this, of startNodeId] True show ?thesis by auto
next
  case False
  from calculateAutoLayout_fail[OF this, of startNodeId] False show ?thesis by simp
qed






lemma returning_call_positions_endpoints:
  assumes "calculateAutoLayout allNodes allEdges startNodeId = Inr r"
    and "edge \<in> set allEdges"
  shows "map_of (nodePositions r) (source edge) \<noteq> None \<and>
         map_of (nodePositions r) (target edge) \<noteq> None"
proof -
  have "wellFormedEdges allNodes allEdges"
    using assms(1) calculateAutoLayout_fail[of allNodes allEdges startNodeId] by auto
  with assms(2) have "source edge \<in> node_id ` set allNodes"
    and "target edge \<in> node_id ` set allNodes"
    by (simp_all add: wellFormedEdges_def)
  with calculateAutoLayout_covers[OF assms(1)] show ?thesis by (auto simp: dom_def)
qed

section \<open>The claims of the specification\<close>

subsection \<open>C1: edges that reference a missing node\<close>

text \<open>
  Claim C1 says that an edge whose source or target id is not in the supplied node set is
  skipped while the adjacency maps are built, and that the layout pass completes without
  raising. The code does not do that. On one room with an exit to a room outside the node
  set, \<^verbatim>\<open>graphIn[edge.target]\<close> is \<^verbatim>\<open>undefined\<close>, \<^verbatim>\<open>.push\<close> raises a \<^verbatim>\<open>TypeError\<close> at line 282
  and no layout is returned.
\<close>

theorem dangling_target_raises:
  "calculateAutoLayout danglingNodes danglingEdges None = Inl TypeError"
  by (simp add: fixture_defs danglingNodes_def danglingEdges_def layout_defs)

subsection \<open>C2: nodes that already carry a position\<close>




subsection \<open>C3: the arc of the children\<close>

text \<open>
  Claim C3, as amended. In \<^verbatim>\<open>calculateAutoLayout\<close>, a positioned parent \<open>P\<close> with \<open>n\<close>
  not-yet-positioned out-neighbours places child \<open>k\<close> (1-based; the last occurrence, should
  the same id occur twice in the list) at angle \<open>\<pi>/(n+1)\<cdot>k\<close> on an arc with two radii:
  \<open>x = P.x + (horizontalSpacing/2)\<cdot>cos(angle)\<close> and \<open>y = P.y + verticalSpacing\<cdot>sin(angle)\<close>;
  the child keeps this position to the end of the traversal. The single radius of one
  \<open>horizontalSpacing\<close> on both axes is that of the inline variant, which places the same
  child at \<open>(P.x + horizontalSpacing\<cdot>cos(angle), P.y + horizontalSpacing\<cdot>sin(angle))\<close>.
\<close>

theorem child_arc_placement:
  assumes "map_of np currentId = Some parentPos"
    and "children = unpositionedChildren graphOut positionedIds currentId"
    and "1 \<le> k" and "k \<le> length children"
    and "children ! (k - 1) \<notin> set (drop k children)"
  shows "bfs graphOut np positionedIds (currentId # queue) =
       bfs graphOut (placeChildren parentPos children np) (positionedIds \<union> set children)
         (queue @ children) \<and>
     map_of (placeChildren parentPos children np) (children ! (k - 1)) =
       Some \<lparr>pos_x = pos_x parentPos
                + (horizontalSpacing / 2) * cos (pi / (real (length children) + 1) * real k),
             pos_y = pos_y parentPos
                + verticalSpacing * sin (pi / (real (length children) + 1) * real k)\<rparr> \<and>
     map_of (fst (bfs graphOut np positionedIds (currentId # queue))) (children ! (k - 1)) =
       map_of (placeChildren parentPos children np) (children ! (k - 1)) \<and>
     map_of (placeChildrenInline parentPos children np) (children ! (k - 1)) =
       Some (specChildPos horizontalSpacing parentPos (length children) k)"
proof -
  from assms(3,4) have ne: "children \<noteq> []" by auto
  from assms(3,4) have lt: "k - 1 < length children" by simp
  from assms(3,5) have last: "children ! (k - 1) \<notin> set (drop (Suc (k - 1)) children)" by simp
  have rk: "real (k - 1) + 1 = real k" using assms(3) by simp
  from placeChildrenFrom_nth[OF lt last, of parentPos "length children" 0 np]
  have "map_of (placeChildren parentPos children np) (children ! (k - 1)) =
       Some (childPos parentPos (length children) (k - 1))"
    by (simp add: placeChildren_def)
  moreover have "childPos parentPos (length children) (k - 1) =
       \<lparr>pos_x = pos_x parentPos
                + (horizontalSpacing / 2) * cos (pi / (real (length children) + 1) * real k),
        pos_y = pos_y parentPos
                + verticalSpacing * sin (pi / (real (length children) + 1) * real k)\<rparr>"
    unfolding childPos_def Let_def rk by (rule refl)
  ultimately have place: "map_of (placeChildren parentPos children np) (children ! (k - 1)) =
       Some \<lparr>pos_x = pos_x parentPos
                + (horizontalSpacing / 2) * cos (pi / (real (length children) + 1) * real k),
             pos_y = pos_y parentPos
                + verticalSpacing * sin (pi / (real (length children) + 1) * real k)\<rparr>"
    by (simp only:)
  have mem: "children ! (k - 1) \<in> set children" using lt by simp
  from placeChildrenInlineFrom_nth[OF lt last, of parentPos "length children" 0 np]
  have "map_of (placeChildrenInline parentPos children np) (children ! (k - 1)) =
       Some (childPosInline parentPos (length children) (k - 1))"
    by (simp add: placeChildrenInline_def)
  then have inline: "map_of (placeChildrenInline parentPos children np) (children ! (k - 1)) =
       Some (specChildPos horizontalSpacing parentPos (length children) k)"
    unfolding childPosInline_spec[OF assms(3), of parentPos "length children"] .
  from bfs_wave[OF assms(1,2) ne, of queue] place
    bfs_wave_final[OF assms(1,2) mem, of queue] inline
  show ?thesis by (intro conjI)
qed

theorem child_arc_placement_witness:
  "map_of forkPositions ''1'' = Some \<lparr>pos_x = 0, pos_y = 100\<rparr> \<and>
   [''2'', ''3''] = unpositionedChildren forkGraphOut {''1''} ''1'' \<and>
   (1::nat) \<le> 1 \<and> (1::nat) \<le> length [''2'', ''3''] \<and>
   [''2'', ''3''] ! (1 - 1) \<notin> set (drop 1 [''2'', ''3'']) \<and>
   map_of (placeChildren \<lparr>pos_x = 0, pos_y = 100\<rparr> [''2'', ''3''] forkPositions) ''2'' =
     Some \<lparr>pos_x = 75, pos_y = 100 + 100 * sqrt 3\<rparr> \<and>
   map_of (placeChildrenInline \<lparr>pos_x = 0, pos_y = 100\<rparr> [''2'', ''3''] forkPositions) ''2'' =
     Some \<lparr>pos_x = 150, pos_y = 100 + 150 * sqrt 3\<rparr>"
proof -
  have h1: "map_of forkPositions ''1'' = Some \<lparr>pos_x = 0, pos_y = 100\<rparr>"
    by (simp add: forkPositions_def)
  have h2: "[''2'', ''3''] = unpositionedChildren forkGraphOut {''1''} ''1''"
    by (simp add: unpositionedChildren_def forkGraphOut_def)
  have h3: "(1::nat) \<le> 1" by simp
  have h4: "(1::nat) \<le> length [''2'', ''3'']" by simp
  have h5: "[''2'', ''3''] ! (1 - 1) \<notin> set (drop 1 [''2'', ''3''])" by simp
  from child_arc_placement[OF h1 h2 h3 h4 h5, of "[]", THEN conjunct2, THEN conjunct1]
  have "map_of (placeChildren \<lparr>pos_x = 0, pos_y = 100\<rparr> [''2'', ''3''] forkPositions) ''2'' =
     Some \<lparr>pos_x = 75, pos_y = 100 + 100 * sqrt 3\<rparr>"
    by (simp add: horizontalSpacing_def verticalSpacing_def cos_60 sin_60)
  moreover
  from child_arc_placement[OF h1 h2 h3 h4 h5, of "[]", THEN conjunct2, THEN conjunct2, THEN conjunct2]
  have "map_of (placeChildrenInline \<lparr>pos_x = 0, pos_y = 100\<rparr> [''2'', ''3''] forkPositions) ''2'' =
     Some \<lparr>pos_x = 150, pos_y = 100 + 150 * sqrt 3\<rparr>"
    by (simp add: specChildPos_def horizontalSpacing_def cos_60 sin_60)
  ultimately show ?thesis using h1 h2 h3 h4 h5 by (simp only: simp_thms)
qed

text \<open>
  The claim as the specification states it (one radius of \<open>horizontalSpacing\<close> on both
  axes) fails on the chain \<open>1 \<rightarrow> 2\<close>: the root is at \<open>(0, 100)\<close>, its only child is placed at
  angle \<open>\<pi>/2\<close> at \<open>(0, 300)\<close>, and the single radius would put it at \<open>(0, 400)\<close>.
\<close>

theorem single_radius_counterexample:
  "calculateAutoLayout chainNodes chainEdges None = Inr chainLayout \<and>
   map_of (nodePositions chainLayout) ''1'' = Some \<lparr>pos_x = 0, pos_y = 100\<rparr> \<and>
   map_of (nodePositions chainLayout) ''2'' = Some \<lparr>pos_x = 0, pos_y = 300\<rparr> \<and>
   specChildPos horizontalSpacing \<lparr>pos_x = 0, pos_y = 100\<rparr> 1 1 = \<lparr>pos_x = 0, pos_y = 400\<rparr>"
  by (simp add: fixture_defs chainNodes_def chainEdges_def chainLayout_def layout_defs specChildPos_def)

subsection \<open>C4: the two edges of a bidirectional pair\<close>

text \<open>
  Claim C4. For a pair of edges \<open>A \<rightarrow> B\<close> and \<open>B \<rightarrow> A\<close> with \<open>A \<noteq> B\<close> and both endpoints
  positioned, exactly one edge of the pair, the one whose source id is lexicographically
  greater than its target id, receives the offset handles of the opposite axis; the other
  keeps the primary handles of the dominant axis; and the two handle pairs differ.
\<close>

theorem bidirectional_pair_handles:
  assumes "calculateAutoLayout allNodes allEdges startNodeId = Inr r"
    and "i < length allEdges" and "j < length allEdges"
    and "source (allEdges ! i) = A" and "target (allEdges ! i) = B"
    and "source (allEdges ! j) = B" and "target (allEdges ! j) = A"
    and "A \<noteq> B"
    and "map_of (nodePositions r) A = Some posA"
    and "map_of (nodePositions r) B = Some posB"
  shows "((A > B) \<noteq> (B > A)) \<and>
     isOffsetPair (handlePair (enhancedEdges r ! i)) = (A > B) \<and>
     isOffsetPair (handlePair (enhancedEdges r ! j)) = (B > A) \<and>
     handlePair (enhancedEdges r ! i) =
       (if A > B
        then offsetHandles (pos_x posB - pos_x posA) (pos_y posB - pos_y posA)
        else primaryHandles (pos_x posB - pos_x posA) (pos_y posB - pos_y posA)) \<and>
     handlePair (enhancedEdges r ! j) =
       (if B > A
        then offsetHandles (pos_x posA - pos_x posB) (pos_y posA - pos_y posB)
        else primaryHandles (pos_x posA - pos_x posB) (pos_y posA - pos_y posB)) \<and>
     handlePair (enhancedEdges r ! i) \<noteq> handlePair (enhancedEdges r ! j)"
proof -
  let ?ei = "allEdges ! i" and ?ej = "allEdges ! j"
  have order: "(A > B) \<noteq> (B > A)" using assms(8) by auto
  have revi: "hasReverseEdge allEdges ?ei"
    unfolding hasReverseEdge_def
  proof (rule bexI)
    show "source ?ej = target ?ei \<and> target ?ej = source ?ei"
      using assms(4,5,6,7) by simp
    show "?ej \<in> set allEdges" using assms(3) by simp
  qed
  have revj: "hasReverseEdge allEdges ?ej"
    unfolding hasReverseEdge_def
  proof (rule bexI)
    show "source ?ei = target ?ej \<and> target ?ei = source ?ej"
      using assms(4,5,6,7) by simp
    show "?ei \<in> set allEdges" using assms(2) by simp
  qed
  have pi: "handlePair (enhancedEdges r ! i) =
       (if A > B
        then offsetHandles (pos_x posB - pos_x posA) (pos_y posB - pos_y posA)
        else primaryHandles (pos_x posB - pos_x posA) (pos_y posB - pos_y posA))"
    unfolding enhancedEdges_nth[OF assms(1,2)]
    using handlePair_positioned[of "nodePositions r" ?ei posA posB allEdges] revi assms(4,5,9,10)
    by simp
  have pj: "handlePair (enhancedEdges r ! j) =
       (if B > A
        then offsetHandles (pos_x posA - pos_x posB) (pos_y posA - pos_y posB)
        else primaryHandles (pos_x posA - pos_x posB) (pos_y posA - pos_y posB))"
    unfolding enhancedEdges_nth[OF assms(1,3)]
    using handlePair_positioned[of "nodePositions r" ?ej posB posA allEdges] revj assms(6,7,9,10)
    by simp
  have oi: "isOffsetPair (handlePair (enhancedEdges r ! i)) = (A > B)"
    unfolding pi by (simp add: offsetHandles_isOffset primaryHandles_not_isOffset)
  have oj: "isOffsetPair (handlePair (enhancedEdges r ! j)) = (B > A)"
    unfolding pj by (simp add: offsetHandles_isOffset primaryHandles_not_isOffset)
  have "handlePair (enhancedEdges r ! i) \<noteq> handlePair (enhancedEdges r ! j)"
    using oi oj order by metis
  with order oi oj pi pj show ?thesis by blast
qed

theorem bidirectional_pair_handles_witness:
  "calculateAutoLayout islandNodes islandEdges None = Inr islandLayout \<and>
   (0::nat) < length islandEdges \<and> (1::nat) < length islandEdges \<and>
   source (islandEdges ! 0) = ''1'' \<and> target (islandEdges ! 0) = ''2'' \<and>
   source (islandEdges ! 1) = ''2'' \<and> target (islandEdges ! 1) = ''1'' \<and>
   ''1'' \<noteq> ''2'' \<and>
   map_of (nodePositions islandLayout) ''1'' = Some \<lparr>pos_x = 300, pos_y = 100\<rparr> \<and>
   map_of (nodePositions islandLayout) ''2'' = Some \<lparr>pos_x = 600, pos_y = 300\<rparr> \<and>
   \<not> isOffsetPair (handlePair (enhancedEdges islandLayout ! 0)) \<and>
   isOffsetPair (handlePair (enhancedEdges islandLayout ! 1)) \<and>
   handlePair (enhancedEdges islandLayout ! 0) = (Some ''right-source'', Some ''left-target'') \<and>
   handlePair (enhancedEdges islandLayout ! 1) = (Some ''bottom-source'', Some ''bottom-target'')"
proof -
  have h2: "(0::nat) < length islandEdges" and h3: "(1::nat) < length islandEdges"
    by (simp_all add: islandEdges_def)
  have h4: "source (islandEdges ! 0) = ''1''" and h5: "target (islandEdges ! 0) = ''2''"
    and h6: "source (islandEdges ! 1) = ''2''" and h7: "target (islandEdges ! 1) = ''1''"
    by (simp_all add: island_defs)
  have h8: "''1'' \<noteq> ''2''" by simp
  have h9: "map_of (nodePositions islandLayout) ''1'' = Some \<lparr>pos_x = 300, pos_y = 100\<rparr>"
    and h10: "map_of (nodePositions islandLayout) ''2'' = Some \<lparr>pos_x = 600, pos_y = 300\<rparr>"
    by (simp_all add: island_defs)
  have lt: "''1'' < ''2''" "\<not> ''2'' < ''1''" by simp_all
  from bidirectional_pair_handles[OF island_run h2 h3 h4 h5 h6 h7 h8 h9 h10]
  have "\<not> isOffsetPair (handlePair (enhancedEdges islandLayout ! 0)) \<and>
   isOffsetPair (handlePair (enhancedEdges islandLayout ! 1)) \<and>
   handlePair (enhancedEdges islandLayout ! 0) = (Some ''right-source'', Some ''left-target'') \<and>
   handlePair (enhancedEdges islandLayout ! 1) = (Some ''bottom-source'', Some ''bottom-target'')"
    using lt by (simp add: primaryHandles_def offsetHandles_def isOffsetPair_def)
  with island_run h2 h3 h4 h5 h6 h7 h8 h9 h10 show ?thesis by blast
qed

subsection \<open>C5: root selection\<close>

text \<open>
  Claim C5, as amended. Root selection follows three ordered rules: a start node id that
  is supplied, is not the empty string and is the id of a node of \<^verbatim>\<open>allNodes\<close> is the sole
  root; otherwise every node with zero incoming edges is a root; otherwise, when the node
  set is not empty, the first node is the sole root. (On input with an edge that references
  a missing node the call raises before it selects roots.)
\<close>

theorem root_selection_rules:
  assumes "wellFormedEdges allNodes allEdges"
  shows "rootNodeIdsOf allNodes allEdges startNodeId =
     Inr (specRootNodeIds truthySupplied allNodes allEdges startNodeId)"
proof -
  from buildGraph_ok[OF assms] obtain graphIn graphOut np0 where
    bg: "buildGraph allNodes allEdges = Inr (graphIn, graphOut, np0)" by blast
  have zero: "(map_of graphIn (node_id n) = Some []) = zeroIncoming allEdges (node_id n)"
    if "n \<in> set allNodes" for n
    using that buildGraph_Inr_facts(1)[OF bg, of "node_id n"]
    by (auto simp: zeroIncoming_def filter_empty_conv)
  then have filt: "filter (\<lambda>n. map_of graphIn (node_id n) = Some []) allNodes =
      filter (\<lambda>n. zeroIncoming allEdges (node_id n)) allNodes"
    by (auto intro: filter_cong)
  have ne: "(filter (\<lambda>n. zeroIncoming allEdges (node_id n)) allNodes \<noteq> []) =
      (\<exists>node \<in> set allNodes. zeroIncoming allEdges (node_id node))"
    by (simp add: filter_empty_conv)
  have sub: "node_id ` set allNodes \<subseteq> dom (map_of graphIn)"
    using buildGraph_Inr_facts(4)[OF bg] by simp
  have "rootNodeIdsOf allNodes allEdges startNodeId =
      findRootNodeIds allNodes graphIn startNodeId"
    by (simp add: rootNodeIdsOf_def bg)
  also have "\<dots> = Inr (specRootNodeIds truthySupplied allNodes allEdges startNodeId)"
    unfolding findRootNodeIds_ok[OF sub] filt ne
    by (cases startNodeId)
      (auto simp: specRootNodeIds_def startNodeUsable_def truthySupplied_def)
  finally show ?thesis .
qed

theorem root_selection_rules_witness:
  "wellFormedEdges cycleNodes cycleEdges \<and>
   rootNodeIdsOf cycleNodes cycleEdges (Some ''2'') = Inr [''2''] \<and>
   rootNodeIdsOf cycleNodes cycleEdges None = Inr [''1''] \<and>
   rootNodeIdsOf emptyIdNodes noEdges None = Inr [[], ''a'']"
proof -
  have a: "specRootNodeIds truthySupplied cycleNodes cycleEdges (Some ''2'') = [''2'']"
    by (simp add: specRootNodeIds_def truthySupplied_def cycle_defs emptyIdNodes_def noEdges_def)
  have b: "specRootNodeIds truthySupplied cycleNodes cycleEdges None = [''1'']"
    by (simp add: specRootNodeIds_def truthySupplied_def zeroIncoming_def cycle_defs emptyIdNodes_def noEdges_def)
  have c: "specRootNodeIds truthySupplied emptyIdNodes noEdges None = [[], ''a'']"
    by (auto simp: specRootNodeIds_def truthySupplied_def zeroIncoming_def cycle_defs emptyIdNodes_def noEdges_def)
  have wf2: "wellFormedEdges emptyIdNodes noEdges"
    by (simp add: wellFormedEdges_def cycle_defs emptyIdNodes_def noEdges_def)
  from root_selection_rules[OF cycle_wellFormed, of "Some ''2''"]
    root_selection_rules[OF cycle_wellFormed, of None]
    root_selection_rules[OF wf2, of None] a b c cycle_wellFormed
  show ?thesis by simp
qed

text \<open>
  The claim as the specification states it (any supplied start node id that is present is
  the sole root) fails for the empty string, which \<^verbatim>\<open>startNodeId && ...\<close> takes for an
  absent argument: with the rooms \<open>""\<close> and \<open>"a"\<close>, no exits and the start node id \<open>""\<close>, both
  rooms are roots.
\<close>

theorem empty_start_id_counterexample:
  "rootNodeIdsOf emptyIdNodes noEdges (Some []) = Inr [[], ''a''] \<and>
   specRootNodeIds anySupplied emptyIdNodes noEdges (Some []) = [[]]"
  by (simp add: fixture_defs emptyIdNodes_def noEdges_def layout_defs rootNodeIdsOf_def specRootNodeIds_def anySupplied_def)

subsection \<open>C6: every node gets a position\<close>

text \<open>
  Claim C6. When every edge references nodes of the supplied node set, the call returns,
  and the returned position table has an entry for every node of \<^verbatim>\<open>allNodes\<close>.
\<close>

theorem layout_covers_all_nodes:
  assumes "wellFormedEdges allNodes allEdges"
  shows "\<exists>r. calculateAutoLayout allNodes allEdges startNodeId = Inr r \<and>
     (\<forall>node \<in> set allNodes. \<exists>p. map_of (nodePositions r) (node_id node) = Some p)"
proof -
  from calculateAutoLayout_total[OF assms, of startNodeId] obtain r where
    run: "calculateAutoLayout allNodes allEdges startNodeId = Inr r" by blast
  from calculateAutoLayout_covers[OF run]
  have "\<forall>node \<in> set allNodes. \<exists>p. map_of (nodePositions r) (node_id node) = Some p"
    by (auto simp: dom_def)
  with run show ?thesis by blast
qed

theorem layout_covers_all_nodes_witness:
  "wellFormedEdges cycleNodes cycleEdges \<and>
   (\<exists>r. calculateAutoLayout cycleNodes cycleEdges None = Inr r \<and>
     (\<forall>node \<in> set cycleNodes. \<exists>p. map_of (nodePositions r) (node_id node) = Some p))"
  using layout_covers_all_nodes[OF cycle_wellFormed, of None] cycle_wellFormed by simp

subsection \<open>C7: the primary handles\<close>

text \<open>
  Claim C7. For an edge with both endpoints positioned and not redirected as the return
  edge of a bidirectional pair, with \<open>dx = target.x - source.x\<close> and \<open>dy = target.y - source.y\<close>:
  if \<open>|dx| \<ge> |dy|\<close> the edge is horizontal, \<open>dx > 0\<close> giving source handle right and target
  handle left, otherwise source left and target right; if \<open>|dx| < |dy|\<close> it is vertical,
  \<open>dy > 0\<close> giving source bottom and target top, otherwise source top and target bottom.
\<close>

theorem primary_handle_assignment:
  assumes "calculateAutoLayout allNodes allEdges startNodeId = Inr r"
    and "i < length allEdges"
    and "map_of (nodePositions r) (source (allEdges ! i)) = Some sourcePos"
    and "map_of (nodePositions r) (target (allEdges ! i)) = Some targetPos"
    and "\<not> (hasReverseEdge allEdges (allEdges ! i) \<and> source (allEdges ! i) > target (allEdges ! i))"
    and "dx = pos_x targetPos - pos_x sourcePos"
    and "dy = pos_y targetPos - pos_y sourcePos"
  shows "(\<bar>dx\<bar> \<ge> \<bar>dy\<bar> \<and> dx > 0 \<longrightarrow>
            sourceHandle (enhancedEdges r ! i) = Some ''right-source'' \<and>
            targetHandle (enhancedEdges r ! i) = Some ''left-target'') \<and>
         (\<bar>dx\<bar> \<ge> \<bar>dy\<bar> \<and> \<not> dx > 0 \<longrightarrow>
            sourceHandle (enhancedEdges r ! i) = Some ''left-source'' \<and>
            targetHandle (enhancedEdges r ! i) = Some ''right-target'') \<and>
         (\<bar>dx\<bar> < \<bar>dy\<bar> \<and> dy > 0 \<longrightarrow>
            sourceHandle (enhancedEdges r ! i) = Some ''bottom-source'' \<and>
            targetHandle (enhancedEdges r ! i) = Some ''top-target'') \<and>
         (\<bar>dx\<bar> < \<bar>dy\<bar> \<and> \<not> dy > 0 \<longrightarrow>
            sourceHandle (enhancedEdges r ! i) = Some ''top-source'' \<and>
            targetHandle (enhancedEdges r ! i) = Some ''bottom-target'')"
proof -
  have "(sourceHandle (enhancedEdges r ! i), targetHandle (enhancedEdges r ! i)) =
      map_prod Some Some (chooseHandles dx dy False)"
    unfolding enhancedEdges_nth[OF assms(1,2)]
    using enhanceEdge_positioned[OF assms(3,4), of allEdges] assms(5,6,7) by simp
  then show ?thesis
    by (auto simp: chooseHandles_def split: if_splits)
qed

theorem primary_handle_assignment_witness:
  "calculateAutoLayout islandNodes islandEdges None = Inr islandLayout \<and>
   (0::nat) < length islandEdges \<and>
   map_of (nodePositions islandLayout) (source (islandEdges ! 0)) = Some \<lparr>pos_x = 300, pos_y = 100\<rparr> \<and>
   map_of (nodePositions islandLayout) (target (islandEdges ! 0)) = Some \<lparr>pos_x = 600, pos_y = 300\<rparr> \<and>
   \<not> (hasReverseEdge islandEdges (islandEdges ! 0) \<and> source (islandEdges ! 0) > target (islandEdges ! 0)) \<and>
   \<bar>600 - 300 :: real\<bar> \<ge> \<bar>300 - 100 :: real\<bar> \<and> (600 - 300 :: real) > 0 \<and>
   sourceHandle (enhancedEdges islandLayout ! 0) = Some ''right-source'' \<and>
   targetHandle (enhancedEdges islandLayout ! 0) = Some ''left-target''"
proof -
  have h2: "(0::nat) < length islandEdges" by (simp add: islandEdges_def)
  have h3: "map_of (nodePositions islandLayout) (source (islandEdges ! 0)) = Some \<lparr>pos_x = 300, pos_y = 100\<rparr>"
    by (simp add: island_defs)
  have h4: "map_of (nodePositions islandLayout) (target (islandEdges ! 0)) = Some \<lparr>pos_x = 600, pos_y = 300\<rparr>"
    by (simp add: island_defs)
  have h5: "\<not> (hasReverseEdge islandEdges (islandEdges ! 0) \<and> source (islandEdges ! 0) > target (islandEdges ! 0))"
    by (simp add: island_defs)
  from primary_handle_assignment[OF island_run h2 h3 h4 h5 refl refl]
  have "sourceHandle (enhancedEdges islandLayout ! 0) = Some ''right-source'' \<and>
        targetHandle (enhancedEdges islandLayout ! 0) = Some ''left-target''"
    by simp
  with island_run h2 h3 h4 h5 show ?thesis by simp
qed

subsection \<open>C8: siblings do not share a position\<close>

text \<open>
  Claim C8. When a parent has two or more not-yet-positioned children, placed in one wave
  of the traversal, any two different children receive different \<open>(x, y)\<close> coordinates, and
  they still have them when the traversal ends.
\<close>

theorem sibling_positions_distinct:
  assumes "map_of np currentId = Some parentPos"
    and "children = unpositionedChildren graphOut positionedIds currentId"
    and "2 \<le> length children"
    and "c1 \<in> set children" and "c2 \<in> set children" and "c1 \<noteq> c2"
  shows "bfs graphOut np positionedIds (currentId # queue) =
       bfs graphOut (placeChildren parentPos children np) (positionedIds \<union> set children)
         (queue @ children) \<and>
     (\<exists>p1 p2.
        map_of (placeChildren parentPos children np) c1 = Some p1 \<and>
        map_of (placeChildren parentPos children np) c2 = Some p2 \<and>
        map_of (fst (bfs graphOut np positionedIds (currentId # queue))) c1 = Some p1 \<and>
        map_of (fst (bfs graphOut np positionedIds (currentId # queue))) c2 = Some p2 \<and>
        (pos_x p1, pos_y p1) \<noteq> (pos_x p2, pos_y p2))"
proof -
  from assms(3) have ne: "children \<noteq> []" by auto
  from placeChildren_member[OF assms(4), of parentPos np] obtain i where
    i: "i < length children" "children ! i = c1"
      "map_of (placeChildren parentPos children np) c1 =
         Some (childPos parentPos (length children) i)"
    by blast
  from placeChildren_member[OF assms(5), of parentPos np] obtain j where
    j: "j < length children" "children ! j = c2"
      "map_of (placeChildren parentPos children np) c2 =
         Some (childPos parentPos (length children) j)"
    by blast
  from i(2) j(2) assms(6) have "i \<noteq> j" by auto
  have "pos_x (childPos parentPos (length children) i) \<noteq>
        pos_x (childPos parentPos (length children) j)"
  proof
    assume "pos_x (childPos parentPos (length children) i) =
        pos_x (childPos parentPos (length children) j)"
    from childPos_x_inj[OF i(1) j(1) this] \<open>i \<noteq> j\<close> show False by contradiction
  qed
  then have ne_pair: "(pos_x (childPos parentPos (length children) i),
              pos_y (childPos parentPos (length children) i)) \<noteq>
             (pos_x (childPos parentPos (length children) j),
              pos_y (childPos parentPos (length children) j))"
    by simp
  have f1: "map_of (fst (bfs graphOut np positionedIds (currentId # queue))) c1 =
      Some (childPos parentPos (length children) i)"
    using bfs_wave_final[OF assms(1,2,4), of queue] i(3) by (rule trans)
  have f2: "map_of (fst (bfs graphOut np positionedIds (currentId # queue))) c2 =
      Some (childPos parentPos (length children) j)"
    using bfs_wave_final[OF assms(1,2,5), of queue] j(3) by (rule trans)
  have "\<exists>p1 p2.
        map_of (placeChildren parentPos children np) c1 = Some p1 \<and>
        map_of (placeChildren parentPos children np) c2 = Some p2 \<and>
        map_of (fst (bfs graphOut np positionedIds (currentId # queue))) c1 = Some p1 \<and>
        map_of (fst (bfs graphOut np positionedIds (currentId # queue))) c2 = Some p2 \<and>
        (pos_x p1, pos_y p1) \<noteq> (pos_x p2, pos_y p2)"
    apply (rule exI[of _ "childPos parentPos (length children) i"])
    apply (rule exI[of _ "childPos parentPos (length children) j"])
    apply (intro conjI)
        apply (rule i(3))
       apply (rule j(3))
      apply (rule f1)
     apply (rule f2)
    apply (rule ne_pair)
    done
  with bfs_wave[OF assms(1,2) ne, of queue] show ?thesis by (rule conjI)
qed

theorem sibling_positions_distinct_witness:
  "map_of forkPositions ''1'' = Some \<lparr>pos_x = 0, pos_y = 100\<rparr> \<and>
   [''2'', ''3''] = unpositionedChildren forkGraphOut {''1''} ''1'' \<and>
   (2::nat) \<le> length [''2'', ''3''] \<and>
   ''2'' \<in> set [''2'', ''3''] \<and> ''3'' \<in> set [''2'', ''3''] \<and> ''2'' \<noteq> ''3'' \<and>
   (\<exists>p1 p2.
      map_of (placeChildren \<lparr>pos_x = 0, pos_y = 100\<rparr> [''2'', ''3''] forkPositions) ''2'' = Some p1 \<and>
      map_of (placeChildren \<lparr>pos_x = 0, pos_y = 100\<rparr> [''2'', ''3''] forkPositions) ''3'' = Some p2 \<and>
      (pos_x p1, pos_y p1) \<noteq> (pos_x p2, pos_y p2))"
proof -
  have h1: "map_of forkPositions ''1'' = Some \<lparr>pos_x = 0, pos_y = 100\<rparr>"
    by (simp add: forkPositions_def)
  have h2: "[''2'', ''3''] = unpositionedChildren forkGraphOut {''1''} ''1''"
    by (simp add: unpositionedChildren_def forkGraphOut_def)
  have h3: "(2::nat) \<le> length [''2'', ''3'']" by simp
  have h4: "''2'' \<in> set [''2'', ''3'']" and h5: "''3'' \<in> set [''2'', ''3'']"
    and h6: "''2'' \<noteq> ''3''" by simp_all
  from sibling_positions_distinct[OF h1 h2 h3 h4 h5 h6, of "[]"]
  obtain p1 p2 where
    p: "map_of (placeChildren \<lparr>pos_x = 0, pos_y = 100\<rparr> [''2'', ''3''] forkPositions) ''2'' = Some p1"
       "map_of (placeChildren \<lparr>pos_x = 0, pos_y = 100\<rparr> [''2'', ''3''] forkPositions) ''3'' = Some p2"
       "(pos_x p1, pos_y p1) \<noteq> (pos_x p2, pos_y p2)"
    by (elim conjE exE)
  have "\<exists>p1 p2.
      map_of (placeChildren \<lparr>pos_x = 0, pos_y = 100\<rparr> [''2'', ''3''] forkPositions) ''2'' = Some p1 \<and>
      map_of (placeChildren \<lparr>pos_x = 0, pos_y = 100\<rparr> [''2'', ''3''] forkPositions) ''3'' = Some p2 \<and>
      (pos_x p1, pos_y p1) \<noteq> (pos_x p2, pos_y p2)"
    apply (rule exI[of _ p1])
    apply (rule exI[of _ p2])
    apply (intro conjI)
      apply (rule p(1))
     apply (rule p(2))
    apply (rule p(3))
    done
  with h1 h2 h3 h4 h5 h6 show ?thesis by (simp only: simp_thms)
qed

subsection \<open>C9: edges without a resolved endpoint\<close>

text \<open>
  Claim C9 says that an edge whose source or target has no resolved position is returned
  unchanged, with the handle values it came with, and that the function does not raise in
  that case. The handle assignment has the branch for it (lines 365 and 433): given the
  table of the one supplied room, it returns such an edge as it came. The call never gets
  there (in a call that returns, every endpoint of every edge has a position, lemma
  \<open>returning_call_positions_endpoints\<close>): an endpoint without a position is an endpoint
  outside the node set, and on one
  room with an exit that leaves a room outside the node set \<^verbatim>\<open>graphOut[edge.source]\<close> is
  \<^verbatim>\<open>undefined\<close>, \<^verbatim>\<open>.push\<close> raises a \<^verbatim>\<open>TypeError\<close> at line 281 and no edge is returned.
\<close>

theorem unresolved_edge_raises:
  "calculateAutoLayout danglingNodes [handledEdge] None = Inl TypeError \<and>
   map_of partialPositions (source handledEdge) = None \<and>
   enhanceEdge partialPositions [handledEdge] handledEdge = handledEdge"
  by (simp add: fixture_defs danglingNodes_def handledEdge_def partialPositions_def layout_defs)

subsection \<open>C10: the edge list keeps its shape\<close>

text \<open>
  Claim C10. The returned \<^verbatim>\<open>enhancedEdges\<close> list has exactly one edge per input edge, in the
  same order; each output edge has the id, the source, the target and the payload of the
  input edge at the same index, and differs from it in \<^verbatim>\<open>sourceHandle\<close> and \<^verbatim>\<open>targetHandle\<close>
  at most.
\<close>

theorem enhancedEdges_frame:
  assumes "calculateAutoLayout allNodes allEdges startNodeId = Inr r"
  shows "length (enhancedEdges r) = length allEdges \<and>
     (\<forall>i < length allEdges.
        edge_id (enhancedEdges r ! i) = edge_id (allEdges ! i) \<and>
        source (enhancedEdges r ! i) = source (allEdges ! i) \<and>
        target (enhancedEdges r ! i) = target (allEdges ! i) \<and>
        edge_data (enhancedEdges r ! i) = edge_data (allEdges ! i) \<and>
        enhancedEdges r ! i =
          (allEdges ! i)\<lparr>sourceHandle := sourceHandle (enhancedEdges r ! i),
                          targetHandle := targetHandle (enhancedEdges r ! i)\<rparr>)"
proof -
  have len: "length (enhancedEdges r) = length allEdges"
    by (simp add: calculateAutoLayout_enhancedEdges[OF assms])
  have "edge_id (enhancedEdges r ! i) = edge_id (allEdges ! i) \<and>
        source (enhancedEdges r ! i) = source (allEdges ! i) \<and>
        target (enhancedEdges r ! i) = target (allEdges ! i) \<and>
        edge_data (enhancedEdges r ! i) = edge_data (allEdges ! i) \<and>
        enhancedEdges r ! i =
          (allEdges ! i)\<lparr>sourceHandle := sourceHandle (enhancedEdges r ! i),
                          targetHandle := targetHandle (enhancedEdges r ! i)\<rparr>"
    if "i < length allEdges" for i
    unfolding enhancedEdges_nth[OF assms that]
    using enhanceEdge_frame[of "nodePositions r" allEdges "allEdges ! i"]
    by (simp add: enhanceEdge_fields)
  with len show ?thesis by blast
qed

theorem enhancedEdges_frame_witness:
  "calculateAutoLayout islandNodes islandEdges None = Inr islandLayout \<and>
   length (enhancedEdges islandLayout) = length islandEdges \<and>
   edge_id (enhancedEdges islandLayout ! 1) = edge_id (islandEdges ! 1) \<and>
   source (enhancedEdges islandLayout ! 1) = source (islandEdges ! 1) \<and>
   target (enhancedEdges islandLayout ! 1) = target (islandEdges ! 1) \<and>
   edge_data (enhancedEdges islandLayout ! 1) = edge_data (islandEdges ! 1) \<and>
   sourceHandle (enhancedEdges islandLayout ! 1) \<noteq> sourceHandle (islandEdges ! 1)"
proof -
  have "(1::nat) < length islandEdges" by (simp add: islandEdges_def)
  with enhancedEdges_frame[OF island_run] island_run
  have "calculateAutoLayout islandNodes islandEdges None = Inr islandLayout \<and>
   length (enhancedEdges islandLayout) = length islandEdges \<and>
   edge_id (enhancedEdges islandLayout ! 1) = edge_id (islandEdges ! 1) \<and>
   source (enhancedEdges islandLayout ! 1) = source (islandEdges ! 1) \<and>
   target (enhancedEdges islandLayout ! 1) = target (islandEdges ! 1) \<and>
   edge_data (enhancedEdges islandLayout ! 1) = edge_data (islandEdges ! 1)"
    by blast
  moreover have "sourceHandle (enhancedEdges islandLayout ! 1) \<noteq> sourceHandle (islandEdges ! 1)"
    by (simp add: island_defs)
  ultimately show ?thesis by blast
qed

end
